theory Spec2Isabelle
  imports Main "HOL-Library.Word" "HOL-Library.Monad_Syntax"
begin

section \<open>ESP32 WiFi/BLE scanner: data model\<close>

text \<open>
  The firmware is one translation unit, \<^verbatim>\<open>src/main.cpp\<close>. Its global variables become
  the fields of the record \<open>state\<close>; every function that reads or writes them takes the
  state and returns the new one. What the firmware reads from the hardware (pin levels,
  the millisecond clock, the results of a radio scan) is passed in as an argument, one value
  per read, so that every theorem holds for all behaviours of the hardware. What it sends to
  the hardware (display and radio driver calls) is appended, in program order, to the field
  \<open>io\<close>.

  \<^verbatim>\<open>int\<close> variables are modelled as \<open>int\<close>: the only arithmetic on them is \<open>+ 1\<close> and
  \<open>- 1\<close> on indices that every redraw brings back into a small range, and \<open>min\<close>.
  \<^verbatim>\<open>unsigned long\<close> is 32 bits wide on the ESP32 and is modelled as \<open>32 word\<close>, so the
  clock comparisons wrap around as in C++. Reading or writing an array outside its bounds is
  undefined behaviour in C++; in the model the access yields \<open>None\<close>, and so does every
  function that performs it.
\<close>

datatype MenuState = MAIN_MENU | WIFI_SCAN_LIST | BLE_SCAN_LIST | WIFI_DETAILS | BLE_DETAILS

text \<open>\<^verbatim>\<open>wifi_auth_mode_t\<close> comes from the ESP-IDF headers; the firmware names six of its
  values and treats every other one alike (the \<^verbatim>\<open>default\<close> branch).\<close>

datatype wifi_auth_mode_t =
    WIFI_AUTH_OPEN | WIFI_AUTH_WEP | WIFI_AUTH_WPA_PSK | WIFI_AUTH_WPA2_PSK
  | WIFI_AUTH_WPA_WPA2_PSK | WIFI_AUTH_WPA2_ENTERPRISE | WIFI_AUTH_OTHER nat

record WiFiDeviceInfo =
  ssid :: string
  mac :: string
  channel :: int
  rssi :: int
  security :: wifi_auth_mode_t

record BLEDeviceInfo =
  name :: string
  address :: string
  rssi :: int
  txPower :: int
  serviceUUID :: string

datatype event =
    LcdInit | LcdBacklight | LcdClear | LcdSetCursor nat nat | LcdPrint string
  | WiFiScanNetworks | WiFiScanDelete | BLEScanStart | BLEClearResults

type_synonym millis = "32 word"

record state =
  wifiDevices :: "WiFiDeviceInfo list"
  bleDevices :: "BLEDeviceInfo list"
  wifiDeviceCount :: int
  bleDeviceCount :: int
  currentState :: MenuState
  listIndex :: int
  detailPage :: int
  lastScanTime :: millis
  lastDebounceTime :: millis
  io :: "event list"

abbreviation (input) LCD_COLS :: nat where "LCD_COLS \<equiv> 16"
abbreviation (input) BTN_UP :: int where "BTN_UP \<equiv> 32"
abbreviation (input) BTN_DOWN :: int where "BTN_DOWN \<equiv> 33"
abbreviation (input) BTN_SELECT :: int where "BTN_SELECT \<equiv> 25"
abbreviation (input) BTN_BACK :: int where "BTN_BACK \<equiv> 26"
abbreviation (input) MAX_WIFI_DEVICES :: int where "MAX_WIFI_DEVICES \<equiv> 25"
abbreviation (input) MAX_BLE_DEVICES :: int where "MAX_BLE_DEVICES \<equiv> 25"
abbreviation (input) SCAN_INTERVAL :: millis where "SCAN_INTERVAL \<equiv> 10000"
abbreviation (input) DEBOUNCE_DELAY :: millis where "DEBOUNCE_DELAY \<equiv> 200"
abbreviation (input) LOW :: int where "LOW \<equiv> 0"

subsection \<open>What the hardware supplies\<close>

text \<open>One call of \<^verbatim>\<open>isButtonPressed\<close> reads a pin once and the clock up to twice (in the
  comparison and in the assignment).\<close>

record button_poll =
  digitalRead :: "int \<Rightarrow> int"
  millis_cmp :: millis
  millis_set :: millis

text \<open>The WiFi driver after \<^verbatim>\<open>WiFi.scanNetworks\<close>: the returned count (negative for a
  failed scan) and the per-index accessors.\<close>

record wifi_scan =
  WiFi_scanNetworks :: int
  WiFi_SSID :: "int \<Rightarrow> string"
  WiFi_BSSIDstr :: "int \<Rightarrow> string"
  WiFi_channel :: "int \<Rightarrow> int"
  WiFi_RSSI :: "int \<Rightarrow> int"
  WiFi_encryptionType :: "int \<Rightarrow> wifi_auth_mode_t"

text \<open>One advertised BLE device; \<open>getAddress\<close> and \<open>getServiceUUID\<close> stand for the
  \<^verbatim>\<open>std::string\<close> their \<^verbatim>\<open>toString()\<close> returns. A result set is the list of devices,
  \<^verbatim>\<open>getCount()\<close> its length and \<^verbatim>\<open>getDevice(i)\<close> its \<open>i\<close>-th element.\<close>

record BLEAdvertisedDevice =
  haveName :: bool
  getName :: string
  getAddress :: string
  haveRSSI :: bool
  getRSSI :: int
  haveTXPower :: bool
  getTXPower :: int
  haveServiceUUID :: bool
  getServiceUUID :: string

record scan_io =
  wifi :: wifi_scan
  ble :: "BLEAdvertisedDevice list"
  millis_done :: millis

record buttons_io =
  up_poll :: button_poll
  down_poll :: button_poll
  select_poll :: button_poll
  select_scan :: scan_io
  back_poll :: button_poll

record loop_io =
  buttons :: buttons_io
  millis_loop :: millis
  auto_scan :: scan_io

section \<open>Library functions the firmware calls\<close>

text \<open>Arduino \<^verbatim>\<open>String::substring(left, right)\<close>.\<close>

definition substring :: "string \<Rightarrow> nat \<Rightarrow> nat \<Rightarrow> string" where
  "substring s left right =
     (let l = (if left > right then right else left);
          r = (if left > right then left else right)
      in if l \<ge> length s then [] else take (min r (length s) - l) (drop l s))"

definition isspace :: "char \<Rightarrow> bool" where
  "isspace c \<longleftrightarrow> c \<in> set [CHR '' '', CHR 0x09, CHR 0x0A, CHR 0x0B, CHR 0x0C, CHR 0x0D]"

text \<open>Arduino \<^verbatim>\<open>String::trim()\<close>: strips white space at both ends.\<close>

definition trim :: "string \<Rightarrow> string" where
  "trim s = rev (dropWhile isspace (rev (dropWhile isspace s)))"

text \<open>The conversion of a \<^verbatim>\<open>std::string\<close> to a C string: it ends at the first NUL.\<close>

definition c_str :: "string \<Rightarrow> string" where
  "c_str s = takeWhile (\<lambda>c. c \<noteq> CHR 0x00) s"

text \<open>\<^verbatim>\<open>Print::print(int)\<close> writes the decimal digits, after a minus sign if negative.\<close>

function decimal_digits :: "nat \<Rightarrow> string" where
  "decimal_digits n =
     (if n < 10 then [''0123456789'' ! n]
      else decimal_digits (n div 10) @ [''0123456789'' ! (n mod 10)])"
  by pat_completeness auto
termination
  by (relation "measure id") auto

definition decimal :: "int \<Rightarrow> string" where
  "decimal n = (if n < 0 then CHR ''-'' # decimal_digits (nat (- n)) else decimal_digits (nat n))"

definition lcd_clear :: "state \<Rightarrow> state" where
  "lcd_clear s = s\<lparr>io := io s @ [LcdClear]\<rparr>"

definition lcd_setCursor :: "nat \<Rightarrow> nat \<Rightarrow> state \<Rightarrow> state" where
  "lcd_setCursor c r s = s\<lparr>io := io s @ [LcdSetCursor c r]\<rparr>"

definition lcd_print :: "string \<Rightarrow> state \<Rightarrow> state" where
  "lcd_print t s = s\<lparr>io := io s @ [LcdPrint t]\<rparr>"

definition lcd_print_int :: "int \<Rightarrow> state \<Rightarrow> state" where
  "lcd_print_int n s = lcd_print (decimal n) s"

text \<open>Array element access, \<open>None\<close> outside the array.\<close>

definition arr_get :: "'a list \<Rightarrow> int \<Rightarrow> 'a option" where
  "arr_get xs i = (if 0 \<le> i \<and> i < int (length xs) then Some (xs ! nat i) else None)"

definition arr_upd :: "'a list \<Rightarrow> int \<Rightarrow> ('a \<Rightarrow> 'a) \<Rightarrow> 'a list option" where
  "arr_upd xs i f =
     (if 0 \<le> i \<and> i < int (length xs) then Some (xs[nat i := f (xs ! nat i)]) else None)"

section \<open>Display and UI functions\<close>

definition getWifiSecurityString :: "wifi_auth_mode_t \<Rightarrow> string" where
  "getWifiSecurityString sec =
     (case sec of
        WIFI_AUTH_OPEN \<Rightarrow> ''Open''
      | WIFI_AUTH_WEP \<Rightarrow> ''WEP''
      | WIFI_AUTH_WPA_PSK \<Rightarrow> ''WPA''
      | WIFI_AUTH_WPA2_PSK \<Rightarrow> ''WPA2''
      | WIFI_AUTH_WPA_WPA2_PSK \<Rightarrow> ''WPA/WPA2''
      | WIFI_AUTH_WPA2_ENTERPRISE \<Rightarrow> ''WPA2-E''
      | WIFI_AUTH_OTHER _ \<Rightarrow> ''Unknown'')"

definition drawMainMenu :: "state \<Rightarrow> state" where
  "drawMainMenu s =
     (let s1 = (if listIndex s < 0 then s\<lparr>listIndex := 1\<rparr> else s);
          s2 = (if listIndex s1 > 1 then s1\<lparr>listIndex := 0\<rparr> else s1);
          s3 = lcd_print (if listIndex s2 = 0 then ''-> WiFi Scanner'' else ''   WiFi Scanner'')
                 (lcd_setCursor 0 0 s2)
      in lcd_print (if listIndex s3 = 1 then ''-> BLE Scanner'' else ''   BLE Scanner'')
           (lcd_setCursor 0 1 s3))"

definition drawWifiList :: "state \<Rightarrow> state option" where
  "drawWifiList s =
     (let s1 = lcd_print_int (wifiDeviceCount s) (lcd_print ''WiFi Networks '' (lcd_setCursor 0 0 s))
      in if wifiDeviceCount s1 = 0
         then Some (lcd_print ''No networks found'' (lcd_setCursor 0 1 s1))
         else
           let s2 = (if listIndex s1 < 0 then s1\<lparr>listIndex := wifiDeviceCount s1 - 1\<rparr> else s1);
               s3 = (if listIndex s2 \<ge> wifiDeviceCount s2 then s2\<lparr>listIndex := 0\<rparr> else s2);
               s4 = lcd_setCursor 0 1 s3
           in do {
             d \<leftarrow> arr_get (wifiDevices s4) (listIndex s4);
             let ssid0 = ssid d;
                 ssid1 = (if length ssid0 = 0 then ''Hidden Network'' else ssid0);
                 line = ''-> '' @ ssid1
             in Some (lcd_print (substring line 0 16) s4)
           })"

definition drawBleList :: "state \<Rightarrow> state option" where
  "drawBleList s =
     (let s1 = lcd_print_int (bleDeviceCount s) (lcd_print ''BLE Devices   '' (lcd_setCursor 0 0 s))
      in if bleDeviceCount s1 = 0
         then Some (lcd_print ''No devices found'' (lcd_setCursor 0 1 s1))
         else
           let s2 = (if listIndex s1 < 0 then s1\<lparr>listIndex := bleDeviceCount s1 - 1\<rparr> else s1);
               s3 = (if listIndex s2 \<ge> bleDeviceCount s2 then s2\<lparr>listIndex := 0\<rparr> else s2);
               s4 = lcd_setCursor 0 1 s3
           in do {
             d \<leftarrow> arr_get (bleDevices s4) (listIndex s4);
             let line = ''-> '' @ name d
             in Some (lcd_print (substring line 0 16) s4)
           })"

definition drawWifiDetails :: "state \<Rightarrow> state option" where
  "drawWifiDetails s =
     (let totalPages = 3;
          s1 = (if detailPage s < 0 then s\<lparr>detailPage := totalPages - 1\<rparr> else s);
          s2 = (if detailPage s1 \<ge> totalPages then s1\<lparr>detailPage := 0\<rparr> else s1)
      in do {
        d \<leftarrow> arr_get (wifiDevices s2) (listIndex s2);
        let top0 = ssid d;
            top1 = (if length top0 = 0 then ''Hidden Network'' else top0);
            top_line = trim top1;
            s3 = lcd_print (substring top_line 0 16) (lcd_setCursor 0 0 s2);
            s4 = lcd_setCursor 0 1 s3
        in Some
          (if detailPage s4 = 0 then
             lcd_print '' dBm'' (lcd_print_int (WiFiDeviceInfo.rssi d) (lcd_print ''RSSI: '' s4))
           else if detailPage s4 = 1 then
             lcd_print (mac d) s4
           else if detailPage s4 = 2 then
             lcd_print (getWifiSecurityString (security d))
               (lcd_print '' Sec: '' (lcd_print_int (channel d) (lcd_print ''Ch: '' s4)))
           else s4)
      })"

definition drawBleDetails :: "state \<Rightarrow> state option" where
  "drawBleDetails s =
     (let totalPages = 4;
          s1 = (if detailPage s < 0 then s\<lparr>detailPage := totalPages - 1\<rparr> else s);
          s2 = (if detailPage s1 \<ge> totalPages then s1\<lparr>detailPage := 0\<rparr> else s1)
      in do {
        d \<leftarrow> arr_get (bleDevices s2) (listIndex s2);
        let top_line = trim (name d);
            s3 = lcd_print (substring top_line 0 16) (lcd_setCursor 0 0 s2);
            s4 = lcd_setCursor 0 1 s3
        in Some
          (if detailPage s4 = 0 then
             lcd_print '' dBm'' (lcd_print_int (BLEDeviceInfo.rssi d) (lcd_print ''RSSI: '' s4))
           else if detailPage s4 = 1 then
             lcd_print (address d) s4
           else if detailPage s4 = 2 then
             lcd_print '' dB'' (lcd_print_int (txPower d) (lcd_print ''TX Power: '' s4))
           else if detailPage s4 = 3 then
             lcd_print (c_str (serviceUUID d)) (lcd_print ''UUID:'' s4)
           else s4)
      })"

definition updateDisplay :: "state \<Rightarrow> state option" where
  "updateDisplay s =
     (let s1 = lcd_clear s
      in case currentState s1 of
           MAIN_MENU \<Rightarrow> Some (drawMainMenu s1)
         | WIFI_SCAN_LIST \<Rightarrow> drawWifiList s1
         | BLE_SCAN_LIST \<Rightarrow> drawBleList s1
         | WIFI_DETAILS \<Rightarrow> drawWifiDetails s1
         | BLE_DETAILS \<Rightarrow> drawBleDetails s1)"

section \<open>Buttons\<close>

definition isButtonPressed :: "button_poll \<Rightarrow> int \<Rightarrow> state \<Rightarrow> bool \<times> state" where
  "isButtonPressed p pin s =
     (if digitalRead p pin = LOW then
        (if millis_cmp p - lastDebounceTime s > DEBOUNCE_DELAY
         then (True, s\<lparr>lastDebounceTime := millis_set p\<rparr>)
         else (False, s))
      else (False, s))"

section \<open>Scanning functions\<close>

text \<open>The copy loop of \<^verbatim>\<open>scanWiFi\<close>, from index \<open>i\<close> on.\<close>

function wifi_copy :: "wifi_scan \<Rightarrow> int \<Rightarrow> state \<Rightarrow> state option" where
  "wifi_copy w i s =
     (if i < wifiDeviceCount s then
        (case arr_upd (wifiDevices s) i
                (\<lambda>d. d\<lparr>ssid := WiFi_SSID w i, mac := WiFi_BSSIDstr w i,
                        channel := WiFi_channel w i, WiFiDeviceInfo.rssi := WiFi_RSSI w i,
                        security := WiFi_encryptionType w i\<rparr>) of
           None \<Rightarrow> None
         | Some a \<Rightarrow> wifi_copy w (i + 1) (s\<lparr>wifiDevices := a\<rparr>))
      else Some s)"
  by pat_completeness auto
termination
  by (relation "measure (\<lambda>(w, i, s). nat (wifiDeviceCount s - i))") auto

definition scanWiFi :: "wifi_scan \<Rightarrow> state \<Rightarrow> state option" where
  "scanWiFi w s =
     (let s1 = s\<lparr>wifiDeviceCount := 0\<rparr>;
          s2 = s1\<lparr>io := io s1 @ [WiFiScanNetworks]\<rparr>;
          n = WiFi_scanNetworks w
      in do {
        s3 \<leftarrow> (if n > 0 then wifi_copy w 0 (s2\<lparr>wifiDeviceCount := min n MAX_WIFI_DEVICES\<rparr>)
               else Some s2);
        Some (s3\<lparr>io := io s3 @ [WiFiScanDelete]\<rparr>)
      })"

text \<open>The duplicate search of \<^verbatim>\<open>scanBLE\<close>, from index \<open>j\<close> on. The registry holds
  Arduino \<^verbatim>\<open>String\<close>s, which contain no NUL, so \<^verbatim>\<open>equals\<close> on a C string is equality.\<close>

function ble_found :: "string \<Rightarrow> int \<Rightarrow> state \<Rightarrow> bool option" where
  "ble_found a j s =
     (if j < bleDeviceCount s then
        (case arr_get (bleDevices s) j of
           None \<Rightarrow> None
         | Some d \<Rightarrow> if address d = a then Some True else ble_found a (j + 1) s)
      else Some False)"
  by pat_completeness auto
termination
  by (relation "measure (\<lambda>(a, j, s). nat (bleDeviceCount s - j))") auto

text \<open>The outer loop of \<^verbatim>\<open>scanBLE\<close>, from index \<open>i\<close> on.\<close>

function ble_loop :: "BLEAdvertisedDevice list \<Rightarrow> int \<Rightarrow> state \<Rightarrow> state option" where
  "ble_loop devs i s =
     (if i < int (length devs) \<and> bleDeviceCount s < MAX_BLE_DEVICES then
        (let device = devs ! nat i
         in case ble_found (c_str (getAddress device)) 0 s of
              None \<Rightarrow> None
            | Some found \<Rightarrow>
                if \<not> found then
                  (case arr_upd (bleDevices s) (bleDeviceCount s)
                          (\<lambda>d. d\<lparr>name := (if haveName device then c_str (getName device) else ''N/A''),
                                  address := c_str (getAddress device),
                                  BLEDeviceInfo.rssi := (if haveRSSI device then getRSSI device else 0),
                                  txPower := (if haveTXPower device then getTXPower device else 0),
                                  serviceUUID := (if haveServiceUUID device then getServiceUUID device
                                                  else ''None'')\<rparr>) of
                     None \<Rightarrow> None
                   | Some a \<Rightarrow>
                       ble_loop devs (i + 1)
                         (s\<lparr>bleDevices := a, bleDeviceCount := bleDeviceCount s + 1\<rparr>))
                else ble_loop devs (i + 1) s)
      else Some s)"
  by pat_completeness auto
termination
  by (relation "measure (\<lambda>(devs, i, s). nat (int (length devs) - i))") auto

definition scanBLE :: "BLEAdvertisedDevice list \<Rightarrow> state \<Rightarrow> state option" where
  "scanBLE foundDevices s =
     (let s1 = s\<lparr>bleDeviceCount := 0\<rparr>;
          s2 = s1\<lparr>io := io s1 @ [BLEScanStart]\<rparr>
      in do {
        s3 \<leftarrow> ble_loop foundDevices 0 s2;
        Some (s3\<lparr>io := io s3 @ [BLEClearResults]\<rparr>)
      })"

section \<open>Core logic\<close>

definition refreshScan :: "scan_io \<Rightarrow> state \<Rightarrow> state option" where
  "refreshScan sc s =
     (let s1 = lcd_print ''Scanning...'' (lcd_setCursor 0 0 (lcd_clear s))
      in do {
        s2 \<leftarrow> (if currentState s1 = WIFI_SCAN_LIST then scanWiFi (wifi sc) s1
               else if currentState s1 = BLE_SCAN_LIST then scanBLE (ble sc) s1
               else Some s1);
        updateDisplay (s2\<lparr>listIndex := 0, lastScanTime := millis_done sc\<rparr>)
      })"

text \<open>\<^verbatim>\<open>handleButtons\<close> is four \<^verbatim>\<open>if\<close> statements in a row, one per button; each is a
  function here, and \<open>handleButtons\<close> runs them in the order of the source.\<close>

definition handleUp :: "button_poll \<Rightarrow> state \<Rightarrow> state option" where
  "handleUp p s =
     (case isButtonPressed p BTN_UP s of
        (True, s1) \<Rightarrow>
          updateDisplay
            (if currentState s1 = WIFI_DETAILS \<or> currentState s1 = BLE_DETAILS
             then s1\<lparr>detailPage := detailPage s1 - 1\<rparr>
             else s1\<lparr>listIndex := listIndex s1 - 1\<rparr>)
      | (False, s1) \<Rightarrow> Some s1)"

definition handleDown :: "button_poll \<Rightarrow> state \<Rightarrow> state option" where
  "handleDown p s =
     (case isButtonPressed p BTN_DOWN s of
        (True, s1) \<Rightarrow>
          updateDisplay
            (if currentState s1 = WIFI_DETAILS \<or> currentState s1 = BLE_DETAILS
             then s1\<lparr>detailPage := detailPage s1 + 1\<rparr>
             else s1\<lparr>listIndex := listIndex s1 + 1\<rparr>)
      | (False, s1) \<Rightarrow> Some s1)"

definition handleSelect :: "button_poll \<Rightarrow> scan_io \<Rightarrow> state \<Rightarrow> state option" where
  "handleSelect p sc s =
     (case isButtonPressed p BTN_SELECT s of
        (True, s1) \<Rightarrow>
          (let s2 = s1\<lparr>detailPage := 0\<rparr>
           in do {
             s3 \<leftarrow> (if currentState s2 = MAIN_MENU then
                      refreshScan sc
                        (s2\<lparr>currentState :=
                              (if listIndex s2 = 0 then WIFI_SCAN_LIST else BLE_SCAN_LIST)\<rparr>)
                    else if currentState s2 = WIFI_SCAN_LIST \<and> wifiDeviceCount s2 > 0 then
                      Some (s2\<lparr>currentState := WIFI_DETAILS\<rparr>)
                    else if currentState s2 = BLE_SCAN_LIST \<and> bleDeviceCount s2 > 0 then
                      Some (s2\<lparr>currentState := BLE_DETAILS\<rparr>)
                    else Some s2);
             updateDisplay s3
           })
      | (False, s1) \<Rightarrow> Some s1)"

definition handleBack :: "button_poll \<Rightarrow> state \<Rightarrow> state option" where
  "handleBack p s =
     (case isButtonPressed p BTN_BACK s of
        (True, s1) \<Rightarrow>
          (let s2 = s1\<lparr>detailPage := 0\<rparr>;
               s3 = (if currentState s2 = WIFI_DETAILS then s2\<lparr>currentState := WIFI_SCAN_LIST\<rparr>
                     else if currentState s2 = BLE_DETAILS then s2\<lparr>currentState := BLE_SCAN_LIST\<rparr>
                     else s2\<lparr>currentState := MAIN_MENU\<rparr>)
           in updateDisplay (s3\<lparr>listIndex := 0\<rparr>))
      | (False, s1) \<Rightarrow> Some s1)"

definition handleButtons :: "buttons_io \<Rightarrow> state \<Rightarrow> state option" where
  "handleButtons b s =
     do {
       s1 \<leftarrow> handleUp (up_poll b) s;
       s2 \<leftarrow> handleDown (down_poll b) s1;
       s3 \<leftarrow> handleSelect (select_poll b) (select_scan b) s2;
       handleBack (back_poll b) s3
     }"

text \<open>The auto-refresh at the end of \<^verbatim>\<open>loop\<close>, with the clock value \<open>now\<close> it reads.\<close>

definition autoRefresh :: "millis \<Rightarrow> scan_io \<Rightarrow> state \<Rightarrow> state option" where
  "autoRefresh now sc s =
     (if (currentState s = WIFI_SCAN_LIST \<or> currentState s = BLE_SCAN_LIST)
         \<and> now - lastScanTime s > SCAN_INTERVAL
      then refreshScan sc s
      else Some s)"

definition loop :: "loop_io \<Rightarrow> state \<Rightarrow> state option" where
  "loop e s =
     do {
       s1 \<leftarrow> handleButtons (buttons e) s;
       autoRefresh (millis_loop e) (auto_scan e) s1
     }"

section \<open>Start-up\<close>

text \<open>The initial values of the global variables. The arrays have static storage, so their
  elements start zero-initialised (empty strings, 0, the first enumerator).\<close>

definition power_on :: state where
  "power_on =
     \<lparr>wifiDevices = replicate 25 \<lparr>ssid = [], mac = [], channel = 0, WiFiDeviceInfo.rssi = 0,
                                  security = WIFI_AUTH_OPEN\<rparr>,
      bleDevices = replicate 25 \<lparr>name = [], address = [], BLEDeviceInfo.rssi = 0, txPower = 0,
                                 serviceUUID = []\<rparr>,
      wifiDeviceCount = 0, bleDeviceCount = 0, currentState = MAIN_MENU,
      listIndex = 0, detailPage = 0, lastScanTime = 0, lastDebounceTime = 0, io = []\<rparr>"

text \<open>The start-up routine of the firmware: its display calls and the first redraw. The
  configuration of the serial port, the pins and the radios touches no variable of the
  program and is left out.\<close>

definition setup_main :: "state option" where
  "setup_main =
     updateDisplay
       (lcd_print ''Scanner Starting''
          (lcd_clear (power_on\<lparr>io := [LcdInit, LcdBacklight]\<rparr>)))"

section \<open>Notions used to state the properties\<close>

text \<open>A registry is the part of its array below the device count.\<close>

definition wifi_registry :: "state \<Rightarrow> WiFiDeviceInfo list" where
  "wifi_registry s = take (nat (wifiDeviceCount s)) (wifiDevices s)"

definition ble_registry :: "state \<Rightarrow> BLEDeviceInfo list" where
  "ble_registry s = take (nat (bleDeviceCount s)) (bleDevices s)"

text \<open>The record of the network that the driver reports at index \<open>i\<close>.\<close>

definition wifi_entry :: "wifi_scan \<Rightarrow> int \<Rightarrow> WiFiDeviceInfo" where
  "wifi_entry w i =
     \<lparr>ssid = WiFi_SSID w i, mac = WiFi_BSSIDstr w i, channel = WiFi_channel w i,
      WiFiDeviceInfo.rssi = WiFi_RSSI w i, security = WiFi_encryptionType w i\<rparr>"

text \<open>The address of an advertised device as the firmware compares and stores it, and the
  record of an advertised device.\<close>

definition ble_addr :: "BLEAdvertisedDevice \<Rightarrow> string" where
  "ble_addr d = c_str (getAddress d)"

definition ble_entry :: "BLEAdvertisedDevice \<Rightarrow> BLEDeviceInfo" where
  "ble_entry d =
     \<lparr>name = (if haveName d then c_str (getName d) else ''N/A''),
      address = c_str (getAddress d),
      BLEDeviceInfo.rssi = (if haveRSSI d then getRSSI d else 0),
      txPower = (if haveTXPower d then getTXPower d else 0),
      serviceUUID = (if haveServiceUUID d then getServiceUUID d else ''None'')\<rparr>"

text \<open>The first unique devices of a result set, in its order: the device at position \<open>k\<close>
  is kept when no device before it has its address.\<close>

definition first_unique :: "BLEAdvertisedDevice list \<Rightarrow> BLEAdvertisedDevice list" where
  "first_unique ds =
     map (\<lambda>k. ds ! k)
       (filter (\<lambda>k. ble_addr (ds ! k) \<notin> ble_addr ` set (take k ds)) [0..<length ds])"

text \<open>The arrays have their 25 elements and the counts lie between 0 and 25.\<close>

definition regs_ok :: "state \<Rightarrow> bool" where
  "regs_ok s \<longleftrightarrow>
     length (wifiDevices s) = 25 \<and> length (bleDevices s) = 25
     \<and> 0 \<le> wifiDeviceCount s \<and> wifiDeviceCount s \<le> 25
     \<and> 0 \<le> bleDeviceCount s \<and> bleDeviceCount s \<le> 25"

text \<open>The index and the page are in the range of the current screen.\<close>

definition nav_ok :: "state \<Rightarrow> bool" where
  "nav_ok s \<longleftrightarrow>
     (case currentState s of
        MAIN_MENU \<Rightarrow> 0 \<le> listIndex s \<and> listIndex s \<le> 1
      | WIFI_SCAN_LIST \<Rightarrow>
          wifiDeviceCount s = 0 \<or> (0 \<le> listIndex s \<and> listIndex s < wifiDeviceCount s)
      | BLE_SCAN_LIST \<Rightarrow>
          bleDeviceCount s = 0 \<or> (0 \<le> listIndex s \<and> listIndex s < bleDeviceCount s)
      | WIFI_DETAILS \<Rightarrow>
          0 \<le> listIndex s \<and> listIndex s < wifiDeviceCount s
          \<and> 0 \<le> detailPage s \<and> detailPage s < 3
      | BLE_DETAILS \<Rightarrow>
          0 \<le> listIndex s \<and> listIndex s < bleDeviceCount s
          \<and> 0 \<le> detailPage s \<and> detailPage s < 4)"

text \<open>The number of radio scans started in a sequence of driver calls.\<close>

definition scans_started :: "event list \<Rightarrow> nat" where
  "scans_started evs = length (filter (\<lambda>e. e = WiFiScanNetworks \<or> e = BLEScanStart) evs)"

text \<open>What a redraw leaves alone: \<open>s'\<close> differs from \<open>s\<close> at most in the index, the page
  and further display calls, and an index of 0 stays 0.\<close>

definition redraw_of :: "state \<Rightarrow> state \<Rightarrow> bool" where
  "redraw_of s s' \<longleftrightarrow>
     wifiDevices s' = wifiDevices s \<and> bleDevices s' = bleDevices s
     \<and> wifiDeviceCount s' = wifiDeviceCount s \<and> bleDeviceCount s' = bleDeviceCount s
     \<and> currentState s' = currentState s \<and> lastScanTime s' = lastScanTime s
     \<and> lastDebounceTime s' = lastDebounceTime s
     \<and> (\<exists>evs. io s' = io s @ LcdClear # evs)
     \<and> scans_started (io s') = scans_started (io s)
     \<and> (listIndex s = 0 \<longrightarrow> listIndex s' = 0)"

text \<open>The states the firmware can be in between two of its steps: after the start-up
  routine, and after each of the four button blocks and the auto-refresh, for any
  readings of the hardware. One pass of \<open>loop\<close> is these five steps in a row.\<close>

inductive reachable :: "state \<Rightarrow> bool" where
  at_start: "setup_main = Some s \<Longrightarrow> reachable s"
| by_up: "reachable s \<Longrightarrow> handleUp p s = Some s' \<Longrightarrow> reachable s'"
| by_down: "reachable s \<Longrightarrow> handleDown p s = Some s' \<Longrightarrow> reachable s'"
| by_select: "reachable s \<Longrightarrow> handleSelect p sc s = Some s' \<Longrightarrow> reachable s'"
| by_back: "reachable s \<Longrightarrow> handleBack p s = Some s' \<Longrightarrow> reachable s'"
| by_refresh: "reachable s \<Longrightarrow> autoRefresh now sc s = Some s' \<Longrightarrow> reachable s'"

subsection \<open>The text on the display\<close>

text \<open>The display driver is a cursor-addressable character writer: \<^verbatim>\<open>clear\<close> empties both
  rows and homes the cursor, \<^verbatim>\<open>setCursor\<close> moves it, \<^verbatim>\<open>print\<close> writes the characters
  from the cursor on. \<open>written evs r\<close> is the text that the driver calls \<open>evs\<close> have
  written to row \<open>r\<close>.\<close>

record lcd =
  lcd_col :: nat
  lcd_row :: nat
  lcd_rows :: "nat \<Rightarrow> string"

definition lcd_blank :: lcd where
  "lcd_blank = \<lparr>lcd_col = 0, lcd_row = 0, lcd_rows = (\<lambda>r. [])\<rparr>"

definition put_text :: "string \<Rightarrow> nat \<Rightarrow> string \<Rightarrow> string" where
  "put_text old c t =
     take c (old @ replicate (c - length old) (CHR '' '')) @ t @ drop (c + length t) old"

fun lcd_step :: "lcd \<Rightarrow> event \<Rightarrow> lcd" where
  "lcd_step d LcdInit = lcd_blank"
| "lcd_step d LcdClear = lcd_blank"
| "lcd_step d (LcdSetCursor c r) = d\<lparr>lcd_col := c, lcd_row := r\<rparr>"
| "lcd_step d (LcdPrint t) =
     d\<lparr>lcd_col := lcd_col d + length t,
       lcd_rows := (lcd_rows d)(lcd_row d := put_text (lcd_rows d (lcd_row d)) (lcd_col d) t)\<rparr>"
| "lcd_step d _ = d"

definition written :: "event list \<Rightarrow> nat \<Rightarrow> string" where
  "written evs r = lcd_rows (foldl lcd_step lcd_blank evs) r"

section \<open>Concrete inputs\<close>

text \<open>A poll at clock value \<open>t\<close> that finds pin \<open>pin\<close> low and every other pin high.\<close>

definition press :: "int \<Rightarrow> millis \<Rightarrow> button_poll" where
  "press pin t = \<lparr>digitalRead = (\<lambda>q. if q = pin then 0 else 1), millis_cmp = t, millis_set = t\<rparr>"

text \<open>A WiFi scan that reports 30 networks, more than the registry holds.\<close>

definition crowded :: wifi_scan where
  "crowded =
     \<lparr>WiFi_scanNetworks = 30, WiFi_SSID = (\<lambda>i. ''AP'' @ decimal i),
      WiFi_BSSIDstr = (\<lambda>i. ''AA:BB:CC:DD:EE:'' @ decimal (i + 10)), WiFi_channel = (\<lambda>i. 1),
      WiFi_RSSI = (\<lambda>i. - 40 - i), WiFi_encryptionType = (\<lambda>i. WIFI_AUTH_OPEN)\<rparr>"

text \<open>A WiFi scan that fails: the driver returns \<^verbatim>\<open>WIFI_SCAN_FAILED\<close>, which is -2.\<close>

definition failed_scan :: wifi_scan where
  "failed_scan =
     \<lparr>WiFi_scanNetworks = - 2, WiFi_SSID = (\<lambda>i. []), WiFi_BSSIDstr = (\<lambda>i. []),
      WiFi_channel = (\<lambda>i. 0), WiFi_RSSI = (\<lambda>i. 0), WiFi_encryptionType = (\<lambda>i. WIFI_AUTH_OPEN)\<rparr>"

text \<open>Three BLE advertisements, the third from the same address as the first.\<close>

definition beacon :: "string \<Rightarrow> string \<Rightarrow> BLEAdvertisedDevice" where
  "beacon nm addr =
     \<lparr>haveName = True, getName = nm, getAddress = addr, haveRSSI = True, getRSSI = - 60,
      haveTXPower = False, getTXPower = 0, haveServiceUUID = False, getServiceUUID = []\<rparr>"

definition three_adverts :: "BLEAdvertisedDevice list" where
  "three_adverts =
     [beacon ''Tag'' ''11:22:33:44:55:66'', beacon ''Watch'' ''aa:bb:cc:dd:ee:ff'',
      beacon ''Tag again'' ''11:22:33:44:55:66'']"

text \<open>What the radios find in a scan that ends at clock value \<open>t\<close>: three WiFi networks
  and the three advertisements.\<close>

definition home_scan :: "millis \<Rightarrow> scan_io" where
  "home_scan t =
     \<lparr>wifi = \<lparr>WiFi_scanNetworks = 3,
              WiFi_SSID = (\<lambda>i. if i = 0 then ''Home'' else if i = 1 then ''Cafe'' else ''Lab''),
              WiFi_BSSIDstr = (\<lambda>i. if i = 0 then ''AA:BB:CC:DD:EE:FF''
                                   else if i = 1 then ''AA:BB:CC:DD:EE:01'' else ''AA:BB:CC:DD:EE:02''),
              WiFi_channel = (\<lambda>i. 6), WiFi_RSSI = (\<lambda>i. - 50),
              WiFi_encryptionType = (\<lambda>i. WIFI_AUTH_WPA2_PSK)\<rparr>,
      ble = three_adverts, millis_done = t\<rparr>"

text \<open>One pass of the main loop that starts at clock value \<open>t\<close> with pin \<open>pin\<close> held low;
  the pass takes two seconds, as does a scan made in it.\<close>

definition tick :: "int \<Rightarrow> millis \<Rightarrow> loop_io" where
  "tick pin t =
     \<lparr>buttons = \<lparr>up_poll = press pin t, down_poll = press pin t, select_poll = press pin t,
                 select_scan = home_scan (t + 2000), back_poll = press pin (t + 2000)\<rparr>,
      millis_loop = t + 2000, auto_scan = home_scan (t + 4000)\<rparr>"

text \<open>The firmware from power-on through the given passes of the main loop.\<close>

definition run :: "loop_io list \<Rightarrow> state option" where
  "run es = foldl (\<lambda>so e. Option.bind so (loop e)) setup_main es"

text \<open>Five states on the way: the main menu after start-up; the WiFi list with the second
  network selected, and its detail screen; the BLE list, and the detail screen of its first
  device.\<close>

definition at_main_menu :: state where
  "at_main_menu = the (run [])"

definition at_wifi_list :: state where
  "at_wifi_list = the (run [tick BTN_SELECT 1000, tick BTN_DOWN 4000])"

definition at_wifi_detail :: state where
  "at_wifi_detail = the (run [tick BTN_SELECT 1000, tick BTN_DOWN 4000, tick BTN_SELECT 7000])"

definition at_ble_list :: state where
  "at_ble_list = the (run [tick BTN_DOWN 1000, tick BTN_SELECT 4000])"

definition at_ble_detail :: state where
  "at_ble_detail = the (run [tick BTN_DOWN 1000, tick BTN_SELECT 4000, tick BTN_SELECT 7000])"

text \<open>The main menu with its second entry selected, and the main menu again after a WiFi
  scan and a press of Back.\<close>

definition at_second_entry :: state where
  "at_second_entry = the (run [tick BTN_DOWN 1000])"

definition back_at_main_menu :: state where
  "back_at_main_menu = the (run [tick BTN_SELECT 1000, tick BTN_BACK 4000])"

section \<open>The scans\<close>

text \<open>
  The loops of the two scans are characterised by what they leave in the arrays. The copy
  loop of the WiFi scan overwrites the elements from \<open>i\<close> up to the device count with the
  driver's records. For the BLE scan, \<open>first_unique\<close> is first shown to grow at its end
  as the loop does (\<open>first_unique_snoc\<close>); the invariant of the outer loop is that the
  registry holds the records of the first unique devices among those seen so far, up to
  25. In both scans every array access is inside the array, so both return a state.
\<close>

declare wifi_copy.simps [simp del] ble_found.simps [simp del] ble_loop.simps [simp del]

lemma wifi_fields_assigned:
  "d\<lparr>ssid := WiFi_SSID w i, mac := WiFi_BSSIDstr w i, channel := WiFi_channel w i,
     WiFiDeviceInfo.rssi := WiFi_RSSI w i, security := WiFi_encryptionType w i\<rparr> = wifi_entry w i"
  by (cases d) (simp add: wifi_entry_def)

lemma wifi_copy_result:
  "0 \<le> i \<Longrightarrow> wifiDeviceCount s \<le> int (length (wifiDevices s)) \<Longrightarrow>
   wifi_copy w i s =
     Some (s\<lparr>wifiDevices :=
               map (\<lambda>j. if i \<le> int j \<and> int j < wifiDeviceCount s then wifi_entry w (int j)
                        else wifiDevices s ! j) [0..<length (wifiDevices s)]\<rparr>)"
proof (induction w i s rule: wifi_copy.induct)
  case (1 w i s)
  let ?xs = "wifiDevices s"
  show ?case
  proof (cases "i < wifiDeviceCount s")
    case False
    have "map (\<lambda>j. if i \<le> int j \<and> int j < wifiDeviceCount s then wifi_entry w (int j)
                        else ?xs ! j) [0..<length ?xs] = ?xs"
      using False by (intro nth_equalityI) auto
    then show ?thesis using False by (subst wifi_copy.simps) simp
  next
    case True
    let ?a = "?xs[nat i := wifi_entry w i]"
    have upd: "arr_upd ?xs i
                (\<lambda>d. d\<lparr>ssid := WiFi_SSID w i, mac := WiFi_BSSIDstr w i,
                        channel := WiFi_channel w i, WiFiDeviceInfo.rssi := WiFi_RSSI w i,
                        security := WiFi_encryptionType w i\<rparr>) = Some ?a"
      using True "1.prems" by (simp add: arr_upd_def wifi_fields_assigned)
    have ih: "wifi_copy w (i + 1) (s\<lparr>wifiDevices := ?a\<rparr>) =
      Some (s\<lparr>wifiDevices :=
               map (\<lambda>j. if i + 1 \<le> int j \<and> int j < wifiDeviceCount s then wifi_entry w (int j)
                        else ?a ! j) [0..<length ?xs]\<rparr>)"
      using "1.IH"[OF True upd] "1.prems" by simp
    have eq: "map (\<lambda>j. if i + 1 \<le> int j \<and> int j < wifiDeviceCount s then wifi_entry w (int j)
                        else ?a ! j) [0..<length ?xs]
            = map (\<lambda>j. if i \<le> int j \<and> int j < wifiDeviceCount s then wifi_entry w (int j)
                        else ?xs ! j) [0..<length ?xs]"
      using True "1.prems" by (intro nth_equalityI) (auto simp: nth_list_update)
    show ?thesis
      using True upd ih eq by (subst wifi_copy.simps) simp
  qed
qed

lemma scanWiFi_result:
  assumes "length (wifiDevices s) = 25"
  shows "scanWiFi w s =
     Some (s\<lparr>wifiDeviceCount := (if WiFi_scanNetworks w > 0 then min (WiFi_scanNetworks w) 25 else 0),
             wifiDevices :=
               map (\<lambda>j. if WiFi_scanNetworks w > 0 \<and> int j < min (WiFi_scanNetworks w) 25
                        then wifi_entry w (int j) else wifiDevices s ! j) [0..<25],
             io := io s @ [WiFiScanNetworks, WiFiScanDelete]\<rparr>)"
proof (cases "WiFi_scanNetworks w > 0")
  case False
  have "map (\<lambda>j. wifiDevices s ! j) [0..<25] = wifiDevices s"
    using assms by (intro nth_equalityI) auto
  then show ?thesis using False by (simp add: scanWiFi_def Let_def)
next
  case True
  have "map (\<lambda>j. if 0 \<le> int j \<and> int j < min (WiFi_scanNetworks w) 25 then wifi_entry w (int j) else wifiDevices s ! j) [0..<25] = map (\<lambda>j. if int j < min (WiFi_scanNetworks w) 25
                        then wifi_entry w (int j) else wifiDevices s ! j) [0..<25]"
    by simp
  then show ?thesis
    using True assms by (simp add: scanWiFi_def Let_def wifi_copy_result)
qed

lemma first_unique_Nil: "first_unique [] = []"
  by (simp add: first_unique_def)

lemma first_unique_snoc:
  "first_unique (xs @ [d]) =
     first_unique xs @ (if ble_addr d \<in> ble_addr ` set xs then [] else [d])"
proof -
  let ?P = "\<lambda>ds k. ble_addr (ds ! k) \<notin> ble_addr ` set (take k ds)"
  have f: "filter (?P (xs @ [d])) [0..<length xs] = filter (?P xs) [0..<length xs]"
    by (rule filter_cong) (auto simp: nth_append)
  have m: "map (\<lambda>k. (xs @ [d]) ! k) (filter (?P xs) [0..<length xs])
            = map (\<lambda>k. xs ! k) (filter (?P xs) [0..<length xs])"
    by (rule map_cong) (auto simp: nth_append)
  show ?thesis
    unfolding first_unique_def using f m by (simp add: nth_append)
qed

lemma first_unique_addrs: "ble_addr ` set (first_unique ds) = ble_addr ` set ds"
  by (induction ds rule: rev_induct) (auto simp: first_unique_Nil first_unique_snoc)

lemma first_unique_distinct: "distinct (map ble_addr (first_unique ds))"
proof (induction ds rule: rev_induct)
  case Nil
  show ?case by (simp add: first_unique_Nil)
next
  case (snoc d ds)
  have "ble_addr d \<notin> ble_addr ` set ds \<Longrightarrow> ble_addr d \<notin> ble_addr ` set (first_unique ds)"
    by (simp add: first_unique_addrs)
  with snoc show ?case by (auto simp: first_unique_snoc)
qed

lemma first_unique_prefix: "\<exists>zs. first_unique (xs @ ys) = first_unique xs @ zs"
proof (induction ys rule: rev_induct)
  case Nil
  show ?case by simp
next
  case (snoc y ys)
  then obtain zs where "first_unique (xs @ ys) = first_unique xs @ zs" by blast
  then show ?case
    using first_unique_snoc [of "xs @ ys" y] by simp
qed

lemma address_ble_entry: "address (ble_entry d) = ble_addr d"
  by (simp add: ble_entry_def ble_addr_def)

lemma ble_fields_assigned:
  "r\<lparr>name := (if haveName d then c_str (getName d) else ''N/A''),
     address := c_str (getAddress d),
     BLEDeviceInfo.rssi := (if haveRSSI d then getRSSI d else 0),
     txPower := (if haveTXPower d then getTXPower d else 0),
     serviceUUID := (if haveServiceUUID d then getServiceUUID d else ''None'')\<rparr> = ble_entry d"
  by (cases r) (simp add: ble_entry_def)

lemma ble_found_result:
  "0 \<le> j \<Longrightarrow> bleDeviceCount s \<le> int (length (bleDevices s)) \<Longrightarrow>
   ble_found a j s = Some (a \<in> address ` set (drop (nat j) (ble_registry s)))"
proof (induction a j s rule: ble_found.induct)
  case (1 a j s)
  show ?case
  proof (cases "j < bleDeviceCount s")
    case False
    then have "drop (nat j) (ble_registry s) = []"
      by (simp add: ble_registry_def)
    then show ?thesis using False by (subst ble_found.simps) simp
  next
    case True
    let ?d = "bleDevices s ! nat j"
    have get: "arr_get (bleDevices s) j = Some ?d"
      using True "1.prems" by (simp add: arr_get_def)
    have len: "nat j < length (ble_registry s)"
      using True "1.prems" by (simp add: ble_registry_def)
    have nth: "ble_registry s ! nat j = ?d"
      using True "1.prems" by (simp add: ble_registry_def)
    have dr: "drop (nat j) (ble_registry s) = ?d # drop (nat (j + 1)) (ble_registry s)"
      using Cons_nth_drop_Suc [OF len] nth "1.prems"(1) by (simp add: nat_add_distrib)
    show ?thesis
    proof (cases "address ?d = a")
      case True
      then show ?thesis using \<open>j < bleDeviceCount s\<close> get dr
        by (subst ble_found.simps) auto
    next
      case False
      then have "ble_found a (j + 1) s = Some (a \<in> address ` set (drop (nat (j + 1)) (ble_registry s)))"
        using "1.IH" [OF True get] "1.prems" by simp
      then show ?thesis using \<open>j < bleDeviceCount s\<close> get dr False
        by (subst ble_found.simps) auto
    qed
  qed
qed

lemma take_Suc_update: "n < length xs \<Longrightarrow> take (Suc n) (xs[n := e]) = take n xs @ [e]"
  by (simp add: take_Suc_conv_app_nth)

lemma take_full_prefix:
  assumes "length (take n xs) = n"
  shows "take n (xs @ zs) = take n xs"
proof -
  from assms have "n \<le> length xs" by simp
  then show ?thesis by simp
qed

lemma ble_loop_result:
  "0 \<le> i \<Longrightarrow> i \<le> int (length devs) \<Longrightarrow> length (bleDevices s) = 25 \<Longrightarrow>
   0 \<le> bleDeviceCount s \<Longrightarrow> bleDeviceCount s \<le> 25 \<Longrightarrow>
   ble_registry s = take 25 (map ble_entry (first_unique (take (nat i) devs))) \<Longrightarrow>
   \<exists>a c. ble_loop devs i s = Some (s\<lparr>bleDevices := a, bleDeviceCount := c\<rparr>)
     \<and> length a = 25 \<and> 0 \<le> c \<and> c \<le> 25
     \<and> take (nat c) a = take 25 (map ble_entry (first_unique devs))"
proof (induction "length devs - nat i" arbitrary: i s rule: less_induct)
  case less
  let ?xs = "bleDevices s" and ?c = "bleDeviceCount s"
  let ?seen = "first_unique (take (nat i) devs)"
  note reg = \<open>ble_registry s = take 25 (map ble_entry ?seen)\<close>
  show ?case
  proof (cases "i < int (length devs) \<and> ?c < 25")
    case False
    have stop: "ble_loop devs i s = Some s"
      using False by (subst ble_loop.simps) auto
    have "take (nat ?c) ?xs = take 25 (map ble_entry (first_unique devs))"
    proof (cases "i < int (length devs)")
      case False
      with less.prems have "take (nat i) devs = devs" by simp
      with reg show ?thesis by (simp add: ble_registry_def)
    next
      case True
      with False less.prems have c25: "?c = 25" by simp
      obtain zs where zs: "first_unique (take (nat i) devs @ drop (nat i) devs) = ?seen @ zs"
        using first_unique_prefix by blast
      have "length (take 25 (map ble_entry ?seen)) = 25"
        using reg c25 less.prems by (simp add: ble_registry_def)
      then have "take 25 (map ble_entry ?seen @ map ble_entry zs) = take 25 (map ble_entry ?seen)"
        by (rule take_full_prefix)
      with zs have "take 25 (map ble_entry (first_unique devs)) = take 25 (map ble_entry ?seen)"
        by simp
      with reg c25 show ?thesis by (simp add: ble_registry_def)
    qed
    then have "ble_loop devs i s = Some (s\<lparr>bleDevices := ?xs, bleDeviceCount := ?c\<rparr>)
        \<and> length ?xs = 25 \<and> 0 \<le> ?c \<and> ?c \<le> 25
        \<and> take (nat ?c) ?xs = take 25 (map ble_entry (first_unique devs))"
      using stop less.prems by simp
    then show ?thesis by blast
  next
    case True
    let ?d = "devs ! nat i"
    have lt: "nat i < length devs" using True less.prems by linarith
    have tk: "take (nat (i + 1)) devs = take (nat i) devs @ [?d]"
      using lt less.prems by (simp add: nat_add_distrib take_Suc_conv_app_nth)
    have "length (ble_registry s) = nat ?c"
      using less.prems(3-5) by (simp add: ble_registry_def)
    moreover have "nat ?c < 25" using True by linarith
    ultimately have "length (take 25 (map ble_entry ?seen)) < 25" using reg by simp
    then have short: "length ?seen < 25" by simp
    with reg have reg': "ble_registry s = map ble_entry ?seen" by simp
    have found: "ble_found (ble_addr ?d) 0 s = Some (ble_addr ?d \<in> ble_addr ` set (take (nat i) devs))"
    proof -
      have "address ` set (ble_registry s) = ble_addr ` set ?seen"
        by (simp add: reg' image_image address_ble_entry)
      then show ?thesis
        using less.prems by (simp add: ble_found_result first_unique_addrs)
    qed
    have meas: "length devs - nat (i + 1) < length devs - nat i"
      using lt less.prems by simp
    show ?thesis
    proof (cases "ble_addr ?d \<in> ble_addr ` set (take (nat i) devs)")
      case dup: True
      have step: "ble_loop devs i s = ble_loop devs (i + 1) s"
        using True found dup by (subst ble_loop.simps) (simp add: ble_addr_def Let_def)
      have "ble_registry s = take 25 (map ble_entry (first_unique (take (nat (i + 1)) devs)))"
        using reg dup by (simp add: tk first_unique_snoc)
      from less.hyps [OF meas _ _ less.prems(3) less.prems(4) less.prems(5) this]
      show ?thesis using step less.prems True by simp
    next
      case new: False
      let ?a = "?xs[nat ?c := ble_entry ?d]"
      let ?s' = "s\<lparr>bleDevices := ?a, bleDeviceCount := ?c + 1\<rparr>"
      have upd: "arr_upd ?xs ?c
          (\<lambda>r. r\<lparr>name := (if haveName ?d then c_str (getName ?d) else ''N/A''),
                  address := c_str (getAddress ?d),
                  BLEDeviceInfo.rssi := (if haveRSSI ?d then getRSSI ?d else 0),
                  txPower := (if haveTXPower ?d then getTXPower ?d else 0),
                  serviceUUID := (if haveServiceUUID ?d then getServiceUUID ?d else ''None'')\<rparr>)
          = Some ?a"
        using True less.prems by (simp add: arr_upd_def ble_fields_assigned)
      have step: "ble_loop devs i s = ble_loop devs (i + 1) ?s'"
        using True found new upd by (subst ble_loop.simps) (simp add: ble_addr_def Let_def)
      have "nat ?c < 25" using True by linarith
      then have nc: "nat ?c < length ?xs" using less.prems(3) by simp
      have "ble_registry ?s' = take (nat ?c) ?xs @ [ble_entry ?d]"
        using nc less.prems(4) by (simp add: ble_registry_def nat_add_distrib take_Suc_update)
      also have "\<dots> = map ble_entry (first_unique (take (nat (i + 1)) devs))"
        using reg' new by (simp add: tk first_unique_snoc ble_registry_def)
      finally have r1: "ble_registry ?s' = map ble_entry (first_unique (take (nat (i + 1)) devs))" .
      have "length (ble_registry ?s') \<le> 25"
        using less.prems(3) by (simp add: ble_registry_def)
      with r1 have r2: "ble_registry ?s' = take 25 (map ble_entry (first_unique (take (nat (i + 1)) devs)))"
        by simp
      have "\<exists>a c. ble_loop devs (i + 1) ?s' = Some (?s'\<lparr>bleDevices := a, bleDeviceCount := c\<rparr>)
         \<and> length a = 25 \<and> 0 \<le> c \<and> c \<le> 25
         \<and> take (nat c) a = take 25 (map ble_entry (first_unique devs))"
        using less.hyps [OF meas _ _ _ _ _ r2] True less.prems by simp
      then show ?thesis using step by simp
    qed
  qed
qed

lemma scanBLE_result:
  assumes "length (bleDevices s) = 25"
  shows "\<exists>a c. scanBLE devs s =
            Some (s\<lparr>bleDevices := a, bleDeviceCount := c, io := io s @ [BLEScanStart, BLEClearResults]\<rparr>)
     \<and> length a = 25 \<and> 0 \<le> c \<and> c \<le> 25
     \<and> take (nat c) a = take 25 (map ble_entry (first_unique devs))"
proof -
  let ?s2 = "s\<lparr>bleDeviceCount := 0, io := io s @ [BLEScanStart]\<rparr>"
  have "ble_registry ?s2 = take 25 (map ble_entry (first_unique (take (nat 0) devs)))"
    by (simp add: ble_registry_def first_unique_Nil)
  from ble_loop_result [OF _ _ _ _ _ this]
  obtain a c where "ble_loop devs 0 ?s2 = Some (?s2\<lparr>bleDevices := a, bleDeviceCount := c\<rparr>)"
     "length a = 25" "0 \<le> c" "c \<le> 25" "take (nat c) a = take 25 (map ble_entry (first_unique devs))"
    using assms by auto
  then have "scanBLE devs s =
            Some (s\<lparr>bleDevices := a, bleDeviceCount := c, io := io s @ [BLEScanStart, BLEClearResults]\<rparr>)
     \<and> length a = 25 \<and> 0 \<le> c \<and> c \<le> 25
     \<and> take (nat c) a = take 25 (map ble_entry (first_unique devs))"
    by (simp add: scanBLE_def Let_def)
  then show ?thesis by blast
qed

lemma power_on_regs: "regs_ok power_on"
  by (simp add: regs_ok_def power_on_def)

lemma wifi_registry_after_scan:
  assumes "nat c \<le> n"
  shows "take (nat c) (map (\<lambda>j. if int j < c then f (int j) else xs ! j) [0..<n])
           = map (\<lambda>j. f (int j)) [0..<nat c]"
  using assms by (auto simp: take_map take_upt)

section \<open>Redrawing\<close>

text \<open>
  What \<open>updateDisplay\<close> does on each screen, as an equation: the index or page after the
  wrap correction, and the display calls made. \<open>updateDisplay_ok\<close> sums them up: where
  the registries are well-formed and, on a detail screen, the list index is inside the
  registry, the redraw succeeds and leaves the index and the page in range.
\<close>

lemmas lcd_defs = lcd_clear_def lcd_setCursor_def lcd_print_def lcd_print_int_def

lemma updateDisplay_main:
  assumes "currentState s = MAIN_MENU"
    and k: "k = (if listIndex s < 0 then 1 else if listIndex s > 1 then 0 else listIndex s)"
  shows "updateDisplay s =
           Some (s\<lparr>listIndex := k,
                   io := io s @ [LcdClear, LcdSetCursor 0 0,
                     LcdPrint (if k = 0 then ''-> WiFi Scanner'' else ''   WiFi Scanner''),
                     LcdSetCursor 0 1,
                     LcdPrint (if k = 1 then ''-> BLE Scanner'' else ''   BLE Scanner'')]\<rparr>)"
  using assms by (simp add: updateDisplay_def drawMainMenu_def lcd_defs Let_def)

lemma updateDisplay_wifi_list_empty:
  assumes "currentState s = WIFI_SCAN_LIST" "wifiDeviceCount s = 0"
  shows "updateDisplay s =
           Some (s\<lparr>io := io s @ [LcdClear, LcdSetCursor 0 0, LcdPrint ''WiFi Networks '',
                     LcdPrint (decimal 0), LcdSetCursor 0 1, LcdPrint ''No networks found'']\<rparr>)"
  using assms by (simp add: updateDisplay_def drawWifiList_def lcd_defs Let_def)

lemma updateDisplay_ble_list_empty:
  assumes "currentState s = BLE_SCAN_LIST" "bleDeviceCount s = 0"
  shows "updateDisplay s =
           Some (s\<lparr>io := io s @ [LcdClear, LcdSetCursor 0 0, LcdPrint ''BLE Devices   '',
                     LcdPrint (decimal 0), LcdSetCursor 0 1, LcdPrint ''No devices found'']\<rparr>)"
  using assms by (simp add: updateDisplay_def drawBleList_def lcd_defs Let_def)

lemma updateDisplay_wifi_list:
  assumes "currentState s = WIFI_SCAN_LIST" "0 < wifiDeviceCount s"
    "wifiDeviceCount s \<le> int (length (wifiDevices s))"
    and k: "k = (if listIndex s < 0 then wifiDeviceCount s - 1
                 else if listIndex s \<ge> wifiDeviceCount s then 0 else listIndex s)"
  shows "updateDisplay s =
           Some (s\<lparr>listIndex := k,
                   io := io s @ [LcdClear, LcdSetCursor 0 0, LcdPrint ''WiFi Networks '',
                     LcdPrint (decimal (wifiDeviceCount s)), LcdSetCursor 0 1,
                     LcdPrint (substring (''-> '' @ (if ssid (wifiDevices s ! nat k) = [] then ''Hidden Network''
                                                    else ssid (wifiDevices s ! nat k))) 0 16)]\<rparr>)"
proof -
  have "wifiDevices s \<noteq> []" using assms(2,3) by auto
  then show ?thesis
    using assms by (simp add: updateDisplay_def drawWifiList_def lcd_defs Let_def arr_get_def)
qed

lemma updateDisplay_ble_list:
  assumes "currentState s = BLE_SCAN_LIST" "0 < bleDeviceCount s"
    "bleDeviceCount s \<le> int (length (bleDevices s))"
    and k: "k = (if listIndex s < 0 then bleDeviceCount s - 1
                 else if listIndex s \<ge> bleDeviceCount s then 0 else listIndex s)"
  shows "updateDisplay s =
           Some (s\<lparr>listIndex := k,
                   io := io s @ [LcdClear, LcdSetCursor 0 0, LcdPrint ''BLE Devices   '',
                     LcdPrint (decimal (bleDeviceCount s)), LcdSetCursor 0 1,
                     LcdPrint (substring (''-> '' @ name (bleDevices s ! nat k)) 0 16)]\<rparr>)"
proof -
  have "bleDevices s \<noteq> []" using assms(2,3) by auto
  then show ?thesis
    using assms by (simp add: updateDisplay_def drawBleList_def lcd_defs Let_def arr_get_def)
qed

lemma updateDisplay_wifi_details:
  assumes "currentState s = WIFI_DETAILS" "0 \<le> listIndex s"
    "listIndex s < int (length (wifiDevices s))"
    and p: "p = (if detailPage s < 0 then 2 else if detailPage s \<ge> 3 then 0 else detailPage s)"
    and d: "d = wifiDevices s ! nat (listIndex s)"
  shows "updateDisplay s =
           Some (s\<lparr>detailPage := p,
                   io := io s @ [LcdClear, LcdSetCursor 0 0,
                      LcdPrint (substring (trim (if ssid d = [] then ''Hidden Network'' else ssid d)) 0 16),
                      LcdSetCursor 0 1]
                     @ (if p = 0 then [LcdPrint ''RSSI: '', LcdPrint (decimal (WiFiDeviceInfo.rssi d)),
                                       LcdPrint '' dBm'']
                        else if p = 1 then [LcdPrint (mac d)]
                        else [LcdPrint ''Ch: '', LcdPrint (decimal (channel d)), LcdPrint '' Sec: '',
                              LcdPrint (getWifiSecurityString (security d))])\<rparr>)"
  using assms
  by (simp add: updateDisplay_def drawWifiDetails_def lcd_defs Let_def arr_get_def)

lemma updateDisplay_ble_details:
  assumes "currentState s = BLE_DETAILS" "0 \<le> listIndex s"
    "listIndex s < int (length (bleDevices s))"
    and p: "p = (if detailPage s < 0 then 3 else if detailPage s \<ge> 4 then 0 else detailPage s)"
    and d: "d = bleDevices s ! nat (listIndex s)"
  shows "updateDisplay s =
           Some (s\<lparr>detailPage := p,
                   io := io s @ [LcdClear, LcdSetCursor 0 0,
                      LcdPrint (substring (trim (name d)) 0 16),
                      LcdSetCursor 0 1]
                     @ (if p = 0 then [LcdPrint ''RSSI: '', LcdPrint (decimal (BLEDeviceInfo.rssi d)),
                                       LcdPrint '' dBm'']
                        else if p = 1 then [LcdPrint (address d)]
                        else if p = 2 then [LcdPrint ''TX Power: '', LcdPrint (decimal (txPower d)),
                                            LcdPrint '' dB'']
                        else [LcdPrint ''UUID:'', LcdPrint (c_str (serviceUUID d))])\<rparr>)"
  using assms
  by (simp add: updateDisplay_def drawBleDetails_def lcd_defs Let_def arr_get_def)

lemma updateDisplay_ok:
  assumes r: "regs_ok s"
    and w: "currentState s = WIFI_DETAILS \<Longrightarrow> 0 \<le> listIndex s \<and> listIndex s < wifiDeviceCount s"
    and b: "currentState s = BLE_DETAILS \<Longrightarrow> 0 \<le> listIndex s \<and> listIndex s < bleDeviceCount s"
  shows "\<exists>s'. updateDisplay s = Some s' \<and> redraw_of s s' \<and> regs_ok s' \<and> nav_ok s'"
proof (cases "currentState s")
  case MAIN_MENU
  from updateDisplay_main [OF MAIN_MENU refl] r MAIN_MENU show ?thesis
    by (simp add: redraw_of_def regs_ok_def nav_ok_def scans_started_def)
next
  case WIFI_SCAN_LIST
  show ?thesis
  proof (cases "wifiDeviceCount s = 0")
    case True
    from updateDisplay_wifi_list_empty [OF WIFI_SCAN_LIST True] r WIFI_SCAN_LIST True show ?thesis
      by (simp add: redraw_of_def regs_ok_def nav_ok_def scans_started_def)
  next
    case False
    with r have "0 < wifiDeviceCount s" "wifiDeviceCount s \<le> int (length (wifiDevices s))"
      by (simp_all add: regs_ok_def)
    from updateDisplay_wifi_list [OF WIFI_SCAN_LIST this refl] r WIFI_SCAN_LIST this show ?thesis
      by (simp add: redraw_of_def regs_ok_def nav_ok_def scans_started_def)
  qed
next
  case BLE_SCAN_LIST
  show ?thesis
  proof (cases "bleDeviceCount s = 0")
    case True
    from updateDisplay_ble_list_empty [OF BLE_SCAN_LIST True] r BLE_SCAN_LIST True show ?thesis
      by (simp add: redraw_of_def regs_ok_def nav_ok_def scans_started_def)
  next
    case False
    with r have "0 < bleDeviceCount s" "bleDeviceCount s \<le> int (length (bleDevices s))"
      by (simp_all add: regs_ok_def)
    from updateDisplay_ble_list [OF BLE_SCAN_LIST this refl] r BLE_SCAN_LIST this show ?thesis
      by (simp add: redraw_of_def regs_ok_def nav_ok_def scans_started_def)
  qed
next
  case WIFI_DETAILS
  from w [OF WIFI_DETAILS] r have i: "0 \<le> listIndex s" "listIndex s < int (length (wifiDevices s))"
    by (simp_all add: regs_ok_def)
  from updateDisplay_wifi_details [OF WIFI_DETAILS i refl refl] r WIFI_DETAILS w [OF WIFI_DETAILS]
  show ?thesis
    by (simp add: redraw_of_def regs_ok_def nav_ok_def scans_started_def)
next
  case BLE_DETAILS
  from b [OF BLE_DETAILS] r have i: "0 \<le> listIndex s" "listIndex s < int (length (bleDevices s))"
    by (simp_all add: regs_ok_def)
  from updateDisplay_ble_details [OF BLE_DETAILS i refl refl] r BLE_DETAILS b [OF BLE_DETAILS]
  show ?thesis
    by (simp add: redraw_of_def regs_ok_def nav_ok_def scans_started_def)
qed

section \<open>Buttons, scans on demand and the main loop\<close>

text \<open>
  Each step of the firmware (the four button blocks, \<open>refreshScan\<close>, the auto-refresh)
  succeeds from a state with well-formed registries and the index in range, and ends in
  such a state. So all reachable states are such states (\<open>reachable_ok\<close>), and a pass of
  the main loop from a reachable state succeeds and ends in a reachable state.
\<close>

lemma isButtonPressed_result:
  "isButtonPressed p pin s = (False, s)
   \<or> isButtonPressed p pin s = (True, s\<lparr>lastDebounceTime := millis_set p\<rparr>)"
  by (simp add: isButtonPressed_def)

lemma isButtonPressed_cases:
  obtains (idle) "isButtonPressed p pin s = (False, s)"
  | (pressed) "isButtonPressed p pin s = (True, s\<lparr>lastDebounceTime := millis_set p\<rparr>)"
  using isButtonPressed_result [of p pin s] by blast

lemma regs_ok_upd [simp]:
  "regs_ok (s\<lparr>lastDebounceTime := t\<rparr>) = regs_ok s"
  "regs_ok (s\<lparr>detailPage := p\<rparr>) = regs_ok s"
  "regs_ok (s\<lparr>listIndex := i\<rparr>) = regs_ok s"
  "regs_ok (s\<lparr>currentState := c\<rparr>) = regs_ok s"
  "regs_ok (s\<lparr>lastScanTime := t\<rparr>) = regs_ok s"
  "regs_ok (s\<lparr>io := evs\<rparr>) = regs_ok s"
  by (simp_all add: regs_ok_def)

lemma nav_ok_upd [simp]:
  "nav_ok (s\<lparr>lastDebounceTime := t\<rparr>) = nav_ok s"
  "nav_ok (s\<lparr>lastScanTime := t\<rparr>) = nav_ok s"
  "nav_ok (s\<lparr>io := evs\<rparr>) = nav_ok s"
  by (simp_all add: nav_ok_def split: MenuState.split)

lemma nav_ok_details:
  assumes "nav_ok s"
  shows "currentState s = WIFI_DETAILS \<Longrightarrow> 0 \<le> listIndex s \<and> listIndex s < wifiDeviceCount s"
    and "currentState s = BLE_DETAILS \<Longrightarrow> 0 \<le> listIndex s \<and> listIndex s < bleDeviceCount s"
  using assms by (simp_all add: nav_ok_def)

lemma redraw_of_ok:
  assumes "regs_ok s"
    and "currentState s \<noteq> WIFI_DETAILS \<or> (0 \<le> listIndex s \<and> listIndex s < wifiDeviceCount s)"
    and "currentState s \<noteq> BLE_DETAILS \<or> (0 \<le> listIndex s \<and> listIndex s < bleDeviceCount s)"
  obtains s' where "updateDisplay s = Some s'" "redraw_of s s'" "regs_ok s'" "nav_ok s'"
  using updateDisplay_ok [of s] assms by blast

lemma handleUp_ok:
  assumes "regs_ok s" "nav_ok s"
  shows "\<exists>s'. handleUp p s = Some s' \<and> regs_ok s' \<and> nav_ok s'"
proof (cases rule: isButtonPressed_cases [of p BTN_UP s])
  case idle
  with assms show ?thesis by (simp add: handleUp_def)
next
  case pressed
  let ?s1 = "s\<lparr>lastDebounceTime := millis_set p\<rparr>"
  let ?s2 = "if currentState ?s1 = WIFI_DETAILS \<or> currentState ?s1 = BLE_DETAILS
             then ?s1\<lparr>detailPage := detailPage ?s1 - 1\<rparr>
             else ?s1\<lparr>listIndex := listIndex ?s1 - 1\<rparr>"
  have "regs_ok ?s2" using assms(1) by simp
  moreover have "currentState ?s2 \<noteq> WIFI_DETAILS \<or> (0 \<le> listIndex ?s2 \<and> listIndex ?s2 < wifiDeviceCount ?s2)"
    using nav_ok_details(1) [OF assms(2)] by auto
  moreover have "currentState ?s2 \<noteq> BLE_DETAILS \<or> (0 \<le> listIndex ?s2 \<and> listIndex ?s2 < bleDeviceCount ?s2)"
    using nav_ok_details(2) [OF assms(2)] by auto
  ultimately obtain s' where "updateDisplay ?s2 = Some s'" "regs_ok s'" "nav_ok s'"
    by (rule redraw_of_ok)
  with pressed show ?thesis by (simp add: handleUp_def)
qed

lemma handleDown_ok:
  assumes "regs_ok s" "nav_ok s"
  shows "\<exists>s'. handleDown p s = Some s' \<and> regs_ok s' \<and> nav_ok s'"
proof (cases rule: isButtonPressed_cases [of p BTN_DOWN s])
  case idle
  with assms show ?thesis by (simp add: handleDown_def)
next
  case pressed
  let ?s1 = "s\<lparr>lastDebounceTime := millis_set p\<rparr>"
  let ?s2 = "if currentState ?s1 = WIFI_DETAILS \<or> currentState ?s1 = BLE_DETAILS
             then ?s1\<lparr>detailPage := detailPage ?s1 + 1\<rparr>
             else ?s1\<lparr>listIndex := listIndex ?s1 + 1\<rparr>"
  have "regs_ok ?s2" using assms(1) by simp
  moreover have "currentState ?s2 \<noteq> WIFI_DETAILS \<or> (0 \<le> listIndex ?s2 \<and> listIndex ?s2 < wifiDeviceCount ?s2)"
    using nav_ok_details(1) [OF assms(2)] by auto
  moreover have "currentState ?s2 \<noteq> BLE_DETAILS \<or> (0 \<le> listIndex ?s2 \<and> listIndex ?s2 < bleDeviceCount ?s2)"
    using nav_ok_details(2) [OF assms(2)] by auto
  ultimately obtain s' where "updateDisplay ?s2 = Some s'" "regs_ok s'" "nav_ok s'"
    by (rule redraw_of_ok)
  with pressed show ?thesis by (simp add: handleDown_def)
qed

lemma handleBack_ok:
  assumes "regs_ok s"
  shows "(fst (isButtonPressed p BTN_BACK s) \<or> nav_ok s) \<longrightarrow>
         (\<exists>s'. handleBack p s = Some s' \<and> regs_ok s' \<and> nav_ok s'
            \<and> (fst (isButtonPressed p BTN_BACK s) \<longrightarrow>
                 listIndex s' = 0
                 \<and> currentState s' =
                     (if currentState s = WIFI_DETAILS then WIFI_SCAN_LIST
                      else if currentState s = BLE_DETAILS then BLE_SCAN_LIST else MAIN_MENU)))"
proof (cases rule: isButtonPressed_cases [of p BTN_BACK s])
  case idle
  with assms show ?thesis by (simp add: handleBack_def)
next
  case pressed
  let ?s2 = "s\<lparr>lastDebounceTime := millis_set p, detailPage := 0\<rparr>"
  let ?s3 = "if currentState ?s2 = WIFI_DETAILS then ?s2\<lparr>currentState := WIFI_SCAN_LIST\<rparr>
             else if currentState ?s2 = BLE_DETAILS then ?s2\<lparr>currentState := BLE_SCAN_LIST\<rparr>
             else ?s2\<lparr>currentState := MAIN_MENU\<rparr>"
  let ?s4 = "?s3\<lparr>listIndex := 0\<rparr>"
  have "regs_ok ?s4" using assms(1) by simp
  moreover have "currentState ?s4 \<noteq> WIFI_DETAILS \<or> (0 \<le> listIndex ?s4 \<and> listIndex ?s4 < wifiDeviceCount ?s4)"
    by simp
  moreover have "currentState ?s4 \<noteq> BLE_DETAILS \<or> (0 \<le> listIndex ?s4 \<and> listIndex ?s4 < bleDeviceCount ?s4)"
    by simp
  ultimately obtain s' where s': "updateDisplay ?s4 = Some s'" "redraw_of ?s4 s'" "regs_ok s'" "nav_ok s'"
    by (rule redraw_of_ok)
  have st: "currentState s' = (if currentState s = WIFI_DETAILS then WIFI_SCAN_LIST
                      else if currentState s = BLE_DETAILS then BLE_SCAN_LIST else MAIN_MENU)"
    using s'(2) by (simp add: redraw_of_def)
  have "listIndex s' = 0" using s'(2) by (simp add: redraw_of_def)
  then show ?thesis using pressed s' st by (simp add: handleBack_def Let_def)
qed

lemma scans_started_append [simp]:
  "scans_started (xs @ ys) = scans_started xs + scans_started ys"
  by (simp add: scans_started_def)

lemma scans_started_simps [simp]:
  "scans_started [] = 0"
  "scans_started (LcdInit # xs) = scans_started xs"
  "scans_started (LcdBacklight # xs) = scans_started xs"
  "scans_started (LcdClear # xs) = scans_started xs"
  "scans_started (LcdSetCursor c r # xs) = scans_started xs"
  "scans_started (LcdPrint t # xs) = scans_started xs"
  "scans_started (WiFiScanNetworks # xs) = Suc (scans_started xs)"
  "scans_started (WiFiScanDelete # xs) = scans_started xs"
  "scans_started (BLEScanStart # xs) = Suc (scans_started xs)"
  "scans_started (BLEClearResults # xs) = scans_started xs"
  by (simp_all add: scans_started_def)

lemma refreshScan_ok:
  assumes r: "regs_ok s"
    and l: "currentState s = WIFI_SCAN_LIST \<or> currentState s = BLE_SCAN_LIST"
  shows "\<exists>s' evs. refreshScan sc s = Some s' \<and> regs_ok s' \<and> nav_ok s'
           \<and> currentState s' = currentState s \<and> listIndex s' = 0
           \<and> lastScanTime s' = millis_done sc \<and> lastDebounceTime s' = lastDebounceTime s
           \<and> scans_started (io s') = scans_started (io s) + 1
           \<and> io s' = io s @ [LcdClear, LcdSetCursor 0 0, LcdPrint ''Scanning...'',
                              (if currentState s = WIFI_SCAN_LIST then WiFiScanNetworks else BLEScanStart)]
                       @ evs"
proof -
  let ?s1 = "s\<lparr>io := io s @ [LcdClear, LcdSetCursor 0 0, LcdPrint ''Scanning...'']\<rparr>"
  have s1: "lcd_print ''Scanning...'' (lcd_setCursor 0 0 (lcd_clear s)) = ?s1"
    by (simp add: lcd_defs)
  have len: "length (wifiDevices ?s1) = 25" "length (bleDevices ?s1) = 25"
    using r by (simp_all add: regs_ok_def)
  show ?thesis
  proof (cases "currentState s = WIFI_SCAN_LIST")
    case True
    let ?n = "WiFi_scanNetworks (wifi sc)"
    let ?c = "if ?n > 0 then min ?n 25 else 0"
    let ?m = "map (\<lambda>j. if ?n > 0 \<and> int j < min ?n 25
                        then wifi_entry (wifi sc) (int j) else wifiDevices ?s1 ! j) [0..<25]"
    let ?s2 = "?s1\<lparr>wifiDeviceCount := ?c, wifiDevices := ?m,
                    io := io ?s1 @ [WiFiScanNetworks, WiFiScanDelete]\<rparr>"
    let ?s3 = "?s2\<lparr>listIndex := 0, lastScanTime := millis_done sc\<rparr>"
    have scan: "scanWiFi (wifi sc) ?s1 = Some ?s2"
      by (rule scanWiFi_result [OF len(1)])
    have "regs_ok ?s3" using r by (simp add: regs_ok_def)
    moreover have "currentState ?s3 \<noteq> WIFI_DETAILS \<or> (0 \<le> listIndex ?s3 \<and> listIndex ?s3 < wifiDeviceCount ?s3)"
      using True by simp
    moreover have "currentState ?s3 \<noteq> BLE_DETAILS \<or> (0 \<le> listIndex ?s3 \<and> listIndex ?s3 < bleDeviceCount ?s3)"
      using True by simp
    ultimately obtain s' where s': "updateDisplay ?s3 = Some s'" "redraw_of ?s3 s'" "regs_ok s'" "nav_ok s'"
      by (rule redraw_of_ok)
    from s'(2) obtain evs where evs: "io s' = io ?s3 @ LcdClear # evs"
      unfolding redraw_of_def by blast
    have run: "refreshScan sc s = Some s'"
      using True scan s'(1) by (simp add: refreshScan_def s1 Let_def)
    have "currentState s' = currentState s" "listIndex s' = 0" "lastScanTime s' = millis_done sc"
      "lastDebounceTime s' = lastDebounceTime s" "scans_started (io s') = scans_started (io s) + 1"
      using s'(2) by (simp_all add: redraw_of_def)
    moreover have "io s' = io s @ [LcdClear, LcdSetCursor 0 0, LcdPrint ''Scanning...'',
                              (if currentState s = WIFI_SCAN_LIST then WiFiScanNetworks else BLEScanStart)]
                       @ (WiFiScanDelete # LcdClear # evs)"
      using evs True by simp
    ultimately show ?thesis using run s'(3,4) by blast
  next
    case False
    with l have B: "currentState s = BLE_SCAN_LIST" by simp
    from scanBLE_result [OF len(2), of "ble sc"]
    obtain a c where scan: "scanBLE (ble sc) ?s1 =
            Some (?s1\<lparr>bleDevices := a, bleDeviceCount := c, io := io ?s1 @ [BLEScanStart, BLEClearResults]\<rparr>)"
        and ac: "length a = 25" "0 \<le> c" "c \<le> 25"
      by blast
    let ?s2 = "?s1\<lparr>bleDevices := a, bleDeviceCount := c, io := io ?s1 @ [BLEScanStart, BLEClearResults]\<rparr>"
    let ?s3 = "?s2\<lparr>listIndex := 0, lastScanTime := millis_done sc\<rparr>"
    have "regs_ok ?s3" using r ac by (simp add: regs_ok_def)
    moreover have "currentState ?s3 \<noteq> WIFI_DETAILS \<or> (0 \<le> listIndex ?s3 \<and> listIndex ?s3 < wifiDeviceCount ?s3)"
      using B by simp
    moreover have "currentState ?s3 \<noteq> BLE_DETAILS \<or> (0 \<le> listIndex ?s3 \<and> listIndex ?s3 < bleDeviceCount ?s3)"
      using B by simp
    ultimately obtain s' where s': "updateDisplay ?s3 = Some s'" "redraw_of ?s3 s'" "regs_ok s'" "nav_ok s'"
      by (rule redraw_of_ok)
    from s'(2) obtain evs where evs: "io s' = io ?s3 @ LcdClear # evs"
      unfolding redraw_of_def by blast
    have run: "refreshScan sc s = Some s'"
      using B scan s'(1) by (simp add: refreshScan_def s1 Let_def)
    have "currentState s' = currentState s" "listIndex s' = 0" "lastScanTime s' = millis_done sc"
      "lastDebounceTime s' = lastDebounceTime s" "scans_started (io s') = scans_started (io s) + 1"
      using s'(2) by (simp_all add: redraw_of_def)
    moreover have "io s' = io s @ [LcdClear, LcdSetCursor 0 0, LcdPrint ''Scanning...'',
                              (if currentState s = WIFI_SCAN_LIST then WiFiScanNetworks else BLEScanStart)]
                       @ (BLEClearResults # LcdClear # evs)"
      using evs B by simp
    ultimately show ?thesis using run s'(3,4) by blast
  qed
qed

lemma autoRefresh_ok:
  assumes "regs_ok s" "nav_ok s"
  shows "\<exists>s'. autoRefresh now sc s = Some s' \<and> regs_ok s' \<and> nav_ok s'"
proof (cases "(currentState s = WIFI_SCAN_LIST \<or> currentState s = BLE_SCAN_LIST)
         \<and> now - lastScanTime s > SCAN_INTERVAL")
  case True
  with refreshScan_ok [OF assms(1), of sc] show ?thesis
    by (auto simp: autoRefresh_def)
next
  case False
  with assms show ?thesis by (auto simp: autoRefresh_def)
qed

lemma select_on_main_menu:
  assumes r: "regs_ok s" and m: "currentState s = MAIN_MENU"
    and pr: "isButtonPressed p BTN_SELECT s = (True, s\<lparr>lastDebounceTime := millis_set p\<rparr>)"
  shows "\<exists>s' evs. handleSelect p sc s = Some s' \<and> regs_ok s' \<and> nav_ok s'
           \<and> currentState s' = (if listIndex s = 0 then WIFI_SCAN_LIST else BLE_SCAN_LIST)
           \<and> listIndex s' = 0 \<and> lastScanTime s' = millis_done sc
           \<and> scans_started (io s') = scans_started (io s) + 1
           \<and> io s' = io s @ [LcdClear, LcdSetCursor 0 0, LcdPrint ''Scanning...'',
                              (if listIndex s = 0 then WiFiScanNetworks else BLEScanStart)] @ evs"
proof -
  let ?X = "if listIndex s = 0 then WIFI_SCAN_LIST else BLE_SCAN_LIST"
  let ?s2 = "s\<lparr>lastDebounceTime := millis_set p, detailPage := 0, currentState := ?X\<rparr>"
  have "regs_ok ?s2" using r by simp
  moreover have "currentState ?s2 = WIFI_SCAN_LIST \<or> currentState ?s2 = BLE_SCAN_LIST" by simp
  ultimately obtain s3 evs where s3: "refreshScan sc ?s2 = Some s3" "regs_ok s3" "nav_ok s3"
      "currentState s3 = currentState ?s2" "listIndex s3 = 0" "lastScanTime s3 = millis_done sc"
      "scans_started (io s3) = scans_started (io ?s2) + 1"
      "io s3 = io ?s2 @ [LcdClear, LcdSetCursor 0 0, LcdPrint ''Scanning...'',
                 (if currentState ?s2 = WIFI_SCAN_LIST then WiFiScanNetworks else BLEScanStart)] @ evs"
    using refreshScan_ok [of ?s2 sc] by blast
  have "currentState s3 \<noteq> WIFI_DETAILS \<or> (0 \<le> listIndex s3 \<and> listIndex s3 < wifiDeviceCount s3)"
       "currentState s3 \<noteq> BLE_DETAILS \<or> (0 \<le> listIndex s3 \<and> listIndex s3 < bleDeviceCount s3)"
    using s3(4) by auto
  with s3(2) obtain s' where s': "updateDisplay s3 = Some s'" "redraw_of s3 s'" "regs_ok s'" "nav_ok s'"
    by (rule redraw_of_ok)
  from s'(2) obtain evs' where evs': "io s' = io s3 @ LcdClear # evs'"
    unfolding redraw_of_def by blast
  have run: "handleSelect p sc s = Some s'"
    using pr m s3(1) s'(1) by (simp add: handleSelect_def Let_def)
  have "currentState s' = ?X" "listIndex s' = 0" "lastScanTime s' = millis_done sc"
      "scans_started (io s') = scans_started (io s) + 1"
    using s'(2) s3 by (simp_all add: redraw_of_def)
  moreover have "io s' = io s @ [LcdClear, LcdSetCursor 0 0, LcdPrint ''Scanning...'',
                              (if listIndex s = 0 then WiFiScanNetworks else BLEScanStart)]
                    @ (evs @ LcdClear # evs')"
    using evs' s3(8) by simp
  ultimately show ?thesis using run s'(3,4) by blast
qed

lemma select_elsewhere:
  assumes r: "regs_ok s" and n: "nav_ok s" and m: "currentState s \<noteq> MAIN_MENU"
    and pr: "isButtonPressed p BTN_SELECT s = (True, s\<lparr>lastDebounceTime := millis_set p\<rparr>)"
  shows "\<exists>s'. handleSelect p sc s = Some s' \<and> regs_ok s' \<and> nav_ok s'"
proof -
  let ?s2 = "s\<lparr>lastDebounceTime := millis_set p, detailPage := 0\<rparr>"
  consider (wifi) "currentState s = WIFI_SCAN_LIST" "wifiDeviceCount s > 0"
    | (ble) "currentState s = BLE_SCAN_LIST" "bleDeviceCount s > 0"
    | (stay) "\<not> (currentState s = WIFI_SCAN_LIST \<and> wifiDeviceCount s > 0)"
             "\<not> (currentState s = BLE_SCAN_LIST \<and> bleDeviceCount s > 0)"
    by blast
  then show ?thesis
  proof cases
    case wifi
    let ?s3 = "?s2\<lparr>currentState := WIFI_DETAILS\<rparr>"
    have "regs_ok ?s3" using r by simp
    moreover have "currentState ?s3 \<noteq> WIFI_DETAILS \<or> (0 \<le> listIndex ?s3 \<and> listIndex ?s3 < wifiDeviceCount ?s3)"
      using n wifi by (simp add: nav_ok_def)
    moreover have "currentState ?s3 \<noteq> BLE_DETAILS \<or> (0 \<le> listIndex ?s3 \<and> listIndex ?s3 < bleDeviceCount ?s3)"
      by simp
    ultimately obtain s' where "updateDisplay ?s3 = Some s'" "regs_ok s'" "nav_ok s'"
      by (rule redraw_of_ok)
    with pr wifi show ?thesis
      by (simp add: handleSelect_def Let_def)
  next
    case ble
    let ?s3 = "?s2\<lparr>currentState := BLE_DETAILS\<rparr>"
    have "regs_ok ?s3" using r by simp
    moreover have "currentState ?s3 \<noteq> WIFI_DETAILS \<or> (0 \<le> listIndex ?s3 \<and> listIndex ?s3 < wifiDeviceCount ?s3)"
      by simp
    moreover have "currentState ?s3 \<noteq> BLE_DETAILS \<or> (0 \<le> listIndex ?s3 \<and> listIndex ?s3 < bleDeviceCount ?s3)"
      using n ble by (simp add: nav_ok_def)
    ultimately obtain s' where "updateDisplay ?s3 = Some s'" "regs_ok s'" "nav_ok s'"
      by (rule redraw_of_ok)
    with pr ble show ?thesis
      by (simp add: handleSelect_def Let_def)
  next
    case stay
    have "regs_ok ?s2" using r by simp
    moreover have "currentState ?s2 \<noteq> WIFI_DETAILS \<or> (0 \<le> listIndex ?s2 \<and> listIndex ?s2 < wifiDeviceCount ?s2)"
      using nav_ok_details(1) [OF n] by auto
    moreover have "currentState ?s2 \<noteq> BLE_DETAILS \<or> (0 \<le> listIndex ?s2 \<and> listIndex ?s2 < bleDeviceCount ?s2)"
      using nav_ok_details(2) [OF n] by auto
    ultimately obtain s' where "updateDisplay ?s2 = Some s'" "regs_ok s'" "nav_ok s'"
      by (rule redraw_of_ok)
    with pr m stay show ?thesis
      by (auto simp: handleSelect_def Let_def)
  qed
qed

lemma handleSelect_ok:
  assumes r: "regs_ok s" and n: "nav_ok s"
  shows "\<exists>s'. handleSelect p sc s = Some s' \<and> regs_ok s' \<and> nav_ok s'"
proof (cases rule: isButtonPressed_cases [of p BTN_SELECT s])
  case idle
  with assms show ?thesis by (simp add: handleSelect_def)
next
  case pressed
  show ?thesis
  proof (cases "currentState s = MAIN_MENU")
    case True
    from select_on_main_menu [OF r True pressed, of sc] show ?thesis by blast
  next
    case False
    from select_elsewhere [OF r n False pressed] show ?thesis .
  qed
qed

lemma handleBack_keeps_ok:
  assumes "regs_ok s" "nav_ok s"
  shows "\<exists>s'. handleBack p s = Some s' \<and> regs_ok s' \<and> nav_ok s'"
  using handleBack_ok [OF assms(1), of p] assms(2) by blast

lemma handleButtons_ok:
  assumes "regs_ok s" "nav_ok s"
  shows "\<exists>s'. handleButtons b s = Some s' \<and> regs_ok s' \<and> nav_ok s'"
proof -
  from handleUp_ok [OF assms] obtain s1
    where s1: "handleUp (up_poll b) s = Some s1" "regs_ok s1" "nav_ok s1" by blast
  from handleDown_ok [OF s1(2,3)] obtain s2
    where s2: "handleDown (down_poll b) s1 = Some s2" "regs_ok s2" "nav_ok s2" by blast
  from handleSelect_ok [OF s2(2,3)] obtain s3
    where s3: "handleSelect (select_poll b) (select_scan b) s2 = Some s3" "regs_ok s3" "nav_ok s3"
    by blast
  from handleBack_keeps_ok [OF s3(2,3)] obtain s4
    where s4: "handleBack (back_poll b) s3 = Some s4" "regs_ok s4" "nav_ok s4" by blast
  from s1(1) s2(1) s3(1) s4 show ?thesis by (simp add: handleButtons_def)
qed

lemma setup_main_ok: "\<exists>s. setup_main = Some s \<and> regs_ok s \<and> nav_ok s"
proof -
  let ?s0 = "lcd_print ''Scanner Starting'' (lcd_clear (power_on\<lparr>io := [LcdInit, LcdBacklight]\<rparr>))"
  have "regs_ok ?s0" by (simp add: lcd_defs power_on_regs)
  moreover have "currentState ?s0 = MAIN_MENU" by (simp add: lcd_defs power_on_def)
  ultimately obtain s' where "updateDisplay ?s0 = Some s'" "regs_ok s'" "nav_ok s'"
    by (auto elim: redraw_of_ok)
  then show ?thesis by (simp add: setup_main_def)
qed

lemma reachable_ok: "reachable s \<Longrightarrow> regs_ok s \<and> nav_ok s"
proof (induction rule: reachable.induct)
  case (at_start s)
  from setup_main_ok obtain s0 where "setup_main = Some s0" "regs_ok s0" "nav_ok s0" by blast
  with at_start show ?case by (metis option.inject)
next
  case (by_up s p s')
  then have "regs_ok s" "nav_ok s" by simp_all
  from handleUp_ok [OF this, of p] obtain s0
    where "handleUp p s = Some s0" "regs_ok s0" "nav_ok s0" by blast
  with by_up.hyps(2) show ?case by (metis option.inject)
next
  case (by_down s p s')
  then have "regs_ok s" "nav_ok s" by simp_all
  from handleDown_ok [OF this, of p] obtain s0
    where "handleDown p s = Some s0" "regs_ok s0" "nav_ok s0" by blast
  with by_down.hyps(2) show ?case by (metis option.inject)
next
  case (by_select s p sc s')
  then have "regs_ok s" "nav_ok s" by simp_all
  from handleSelect_ok [OF this, of p sc] obtain s0
    where "handleSelect p sc s = Some s0" "regs_ok s0" "nav_ok s0" by blast
  with by_select.hyps(2) show ?case by (metis option.inject)
next
  case (by_back s p s')
  then have "regs_ok s" "nav_ok s" by simp_all
  from handleBack_keeps_ok [OF this, of p] obtain s0
    where "handleBack p s = Some s0" "regs_ok s0" "nav_ok s0" by blast
  with by_back.hyps(2) show ?case by (metis option.inject)
next
  case (by_refresh s now sc s')
  then have "regs_ok s" "nav_ok s" by simp_all
  from autoRefresh_ok [OF this, of now sc] obtain s0
    where "autoRefresh now sc s = Some s0" "regs_ok s0" "nav_ok s0" by blast
  with by_refresh.hyps(2) show ?case by (metis option.inject)
qed

lemma handleButtons_reachable:
  assumes "reachable s" "handleButtons b s = Some s'"
  shows "reachable s'"
proof -
  from assms(2) obtain s1 s2 s3 where
    h: "handleUp (up_poll b) s = Some s1" "handleDown (down_poll b) s1 = Some s2"
       "handleSelect (select_poll b) (select_scan b) s2 = Some s3"
       "handleBack (back_poll b) s3 = Some s'"
    by (auto simp: handleButtons_def split: Option.bind_splits)
  from assms(1) h(1) have "reachable s1" by (rule by_up)
  from this h(2) have "reachable s2" by (rule by_down)
  from this h(3) have "reachable s3" by (rule by_select)
  from this h(4) show ?thesis by (rule by_back)
qed

lemma loop_reachable:
  assumes "reachable s" "loop e s = Some s'"
  shows "reachable s'"
proof -
  from assms(2) obtain s1 where
    h: "handleButtons (buttons e) s = Some s1"
       "autoRefresh (millis_loop e) (auto_scan e) s1 = Some s'"
    by (auto simp: loop_def split: Option.bind_splits)
  from assms(1) h(1) have "reachable s1" by (rule handleButtons_reachable)
  from this h(2) show ?thesis by (rule by_refresh)
qed

lemma loop_ok:
  assumes "regs_ok s" "nav_ok s"
  shows "\<exists>s'. loop e s = Some s' \<and> regs_ok s' \<and> nav_ok s'"
proof -
  from handleButtons_ok [OF assms] obtain s1
    where s1: "handleButtons (buttons e) s = Some s1" "regs_ok s1" "nav_ok s1" by blast
  from autoRefresh_ok [OF s1(2,3)] obtain s'
    where "autoRefresh (millis_loop e) (auto_scan e) s1 = Some s'" "regs_ok s'" "nav_ok s'" by blast
  with s1(1) show ?thesis by (simp add: loop_def)
qed

lemma run_reachable: "run es = Some s \<Longrightarrow> reachable s"
proof (induction es arbitrary: s rule: rev_induct)
  case Nil
  then show ?case by (simp add: run_def at_start)
next
  case (snoc e es)
  from snoc.prems obtain s0 where h: "run es = Some s0" "loop e s0 = Some s"
    by (auto simp: run_def split: Option.bind_splits)
  from h(1) have "reachable s0" by (rule snoc.IH)
  from this h(2) show ?case by (rule loop_reachable)
qed

lemma pressed_result:
  "fst (isButtonPressed p pin s) \<Longrightarrow>
   isButtonPressed p pin s = (True, s\<lparr>lastDebounceTime := millis_set p\<rparr>)"
  using isButtonPressed_result [of p pin s] by auto

lemma run_reachable_is: "\<not> Option.is_none (run es) \<Longrightarrow> reachable (the (run es))"
  using run_reachable [of es] by (auto simp: Option.is_none_def)

lemma reachable_examples:
  "reachable at_main_menu" "reachable at_wifi_list" "reachable at_wifi_detail"
  "reachable at_ble_list" "reachable at_ble_detail" "reachable at_second_entry"
  "reachable back_at_main_menu"
  unfolding at_main_menu_def at_wifi_list_def at_wifi_detail_def at_ble_list_def at_ble_detail_def
    at_second_entry_def back_at_main_menu_def
  by (rule run_reachable_is, code_simp)+

section \<open>Debouncing\<close>

text \<open>Clock differences are taken in 32-bit unsigned arithmetic, as \<^verbatim>\<open>millis() - t\<close> is in
  the firmware: if \<open>t2\<close> lies between \<open>t1\<close> and \<open>t3\<close>, it is no further from \<open>t3\<close>
  than \<open>t1\<close> is.\<close>

lemma word_gap_shrinks:
  fixes t1 t2 t3 :: millis
  assumes "t2 - t1 \<le> t3 - t1"
  shows "t3 - t2 \<le> t3 - t1"
proof -
  have "t3 - t2 = (t3 - t1) - (t2 - t1)" by simp
  also have "\<dots> \<le> t3 - t1" using assms by (rule word_sub_le)
  finally show ?thesis .
qed

text \<open>
  Claim C7. There is one debounce timer for all four buttons. When a poll of any pin
  \<open>pin1\<close> registers a press, the timer is set to the clock value read then
  (\<open>millis_set p\<close>); and a later poll of any pin \<open>pin2\<close>, the same or another, made
  within 200 ms of the first (the clock having moved from the first poll's comparison
  \<open>millis_cmp p\<close> through \<open>millis_set p\<close> to \<open>millis_cmp q\<close>, at most 200 ms in all)
  reports no press and changes nothing, whatever the level of its pin.
\<close>

theorem shared_debounce_window:
  assumes "isButtonPressed p pin1 s = (True, s1)"
    and "millis_set p - millis_cmp p \<le> millis_cmp q - millis_cmp p"
    and "millis_cmp q - millis_cmp p \<le> DEBOUNCE_DELAY"
  shows "lastDebounceTime s1 = millis_set p \<and> isButtonPressed q pin2 s1 = (False, s1)"
proof -
  from assms(1) have last: "lastDebounceTime s1 = millis_set p"
    by (auto simp: isButtonPressed_def split: if_splits)
  have "millis_cmp q - millis_set p \<le> millis_cmp q - millis_cmp p"
    using assms(2) by (rule word_gap_shrinks)
  with assms(3) have "millis_cmp q - lastDebounceTime s1 \<le> DEBOUNCE_DELAY"
    using last by simp
  then have "\<not> millis_cmp q - lastDebounceTime s1 > DEBOUNCE_DELAY"
    by simp
  then show ?thesis
    using last by (simp add: isButtonPressed_def)
qed

theorem shared_debounce_window_witness:
  "isButtonPressed (press BTN_UP 1000) BTN_UP power_on
     = (True, power_on\<lparr>lastDebounceTime := 1000\<rparr>)
   \<and> lastDebounceTime (power_on\<lparr>lastDebounceTime := 1000\<rparr>) = millis_set (press BTN_UP 1000)
   \<and> isButtonPressed (press BTN_SELECT 1200) BTN_SELECT (power_on\<lparr>lastDebounceTime := 1000\<rparr>)
       = (False, power_on\<lparr>lastDebounceTime := 1000\<rparr>)"
proof -
  have h1: "isButtonPressed (press BTN_UP 1000) BTN_UP power_on
              = (True, power_on\<lparr>lastDebounceTime := 1000\<rparr>)"
    by (simp add: isButtonPressed_def press_def power_on_def)
  have h2: "millis_set (press BTN_UP 1000) - millis_cmp (press BTN_UP 1000)
              \<le> millis_cmp (press BTN_SELECT 1200) - millis_cmp (press BTN_UP 1000)"
    by (simp add: press_def)
  have h3: "millis_cmp (press BTN_SELECT 1200) - millis_cmp (press BTN_UP 1000) \<le> DEBOUNCE_DELAY"
    by (simp add: press_def)
  from shared_debounce_window [OF h1 h2 h3, of BTN_SELECT] h1 show ?thesis by simp
qed

section \<open>Properties of the scans\<close>

text \<open>
  Claim C8. Whatever the device count was before, a WiFi scan (on the 25-element array)
  leaves it at \<open>min n 25\<close> when the driver reports \<open>n > 0\<close> networks and at 0 when it
  reports none or a negative error code: the count is reset before the scan starts. The
  driver is called exactly twice, first to scan and last to release the results it holds,
  whatever the count.
\<close>

theorem scanWiFi_count_and_release:
  assumes "length (wifiDevices s) = 25"
  shows "\<exists>s'. scanWiFi w s = Some s'
           \<and> wifiDeviceCount s' =
               (if WiFi_scanNetworks w > 0 then min (WiFi_scanNetworks w) MAX_WIFI_DEVICES else 0)
           \<and> io s' = io s @ [WiFiScanNetworks, WiFiScanDelete]"
  by (simp add: scanWiFi_result [OF assms])

theorem scanWiFi_count_and_release_witness:
  "length (wifiDevices (power_on\<lparr>wifiDeviceCount := 7\<rparr>)) = 25
   \<and> (\<exists>s'. scanWiFi (wifi (home_scan 3000)) (power_on\<lparr>wifiDeviceCount := 7\<rparr>) = Some s'
         \<and> wifiDeviceCount s' = 3
         \<and> io s' = [WiFiScanNetworks, WiFiScanDelete])
   \<and> (\<exists>s'. scanWiFi failed_scan (power_on\<lparr>wifiDeviceCount := 7\<rparr>) = Some s'
         \<and> wifiDeviceCount s' = 0
         \<and> io s' = [WiFiScanNetworks, WiFiScanDelete])"
proof -
  have h: "length (wifiDevices (power_on\<lparr>wifiDeviceCount := 7\<rparr>)) = 25"
    by (simp add: power_on_def)
  have n: "WiFi_scanNetworks (wifi (home_scan 3000)) = 3" "WiFi_scanNetworks failed_scan = - 2"
    "io power_on = []"
    by (simp_all add: home_scan_def failed_scan_def power_on_def)
  from scanWiFi_count_and_release [OF h, of "wifi (home_scan 3000)"]
    scanWiFi_count_and_release [OF h, of failed_scan] h n
  show ?thesis by simp
qed

text \<open>
  Claim C4. For every count the WiFi driver reports and every BLE result set, both scans
  run to their end and leave a device count between 0 and 25. The WiFi registry then holds
  the driver's networks \<open>0, 1, \<dots>\<close> up to the capacity, in the driver's order, and the BLE
  registry the first 25 of the first unique devices; what lies beyond is dropped.
\<close>

theorem registries_within_capacity:
  assumes "length (wifiDevices s) = 25" and "length (bleDevices s) = 25"
  shows "(\<exists>s'. scanWiFi w s = Some s'
            \<and> 0 \<le> wifiDeviceCount s' \<and> wifiDeviceCount s' \<le> MAX_WIFI_DEVICES
            \<and> wifi_registry s'
                = map (\<lambda>j. wifi_entry w (int j)) [0..<nat (min (WiFi_scanNetworks w) MAX_WIFI_DEVICES)])
       \<and> (\<exists>s'. scanBLE devs s = Some s'
            \<and> 0 \<le> bleDeviceCount s' \<and> bleDeviceCount s' \<le> MAX_BLE_DEVICES
            \<and> ble_registry s' = take 25 (map ble_entry (first_unique devs)))"
proof
  let ?n = "WiFi_scanNetworks w"
  show "\<exists>s'. scanWiFi w s = Some s'
            \<and> 0 \<le> wifiDeviceCount s' \<and> wifiDeviceCount s' \<le> MAX_WIFI_DEVICES
            \<and> wifi_registry s' = map (\<lambda>j. wifi_entry w (int j)) [0..<nat (min ?n MAX_WIFI_DEVICES)]"
  proof (cases "?n > 0")
    case True
    have "take (nat (min ?n 25))
                 (map (\<lambda>j. if int j < min ?n 25 then wifi_entry w (int j) else wifiDevices s ! j) [0..<25])
               = map (\<lambda>j. wifi_entry w (int j)) [0..<nat (min ?n 25)]"
      by (rule wifi_registry_after_scan) simp
    with True show ?thesis
      by (simp add: scanWiFi_result [OF assms(1)] wifi_registry_def)
  next
    case False
    then show ?thesis
      by (simp add: scanWiFi_result [OF assms(1)] wifi_registry_def)
  qed
next
  from scanBLE_result [OF assms(2), of devs]
  show "\<exists>s'. scanBLE devs s = Some s'
            \<and> 0 \<le> bleDeviceCount s' \<and> bleDeviceCount s' \<le> MAX_BLE_DEVICES
            \<and> ble_registry s' = take 25 (map ble_entry (first_unique devs))"
    by (auto simp: ble_registry_def)
qed

theorem registries_within_capacity_witness:
  "length (wifiDevices power_on) = 25 \<and> length (bleDevices power_on) = 25
   \<and> (\<exists>s'. scanWiFi crowded power_on = Some s'
            \<and> 0 \<le> wifiDeviceCount s' \<and> wifiDeviceCount s' \<le> MAX_WIFI_DEVICES
            \<and> wifi_registry s'
                = map (\<lambda>j. wifi_entry crowded (int j)) [0..<nat (min (WiFi_scanNetworks crowded) MAX_WIFI_DEVICES)])
   \<and> (\<exists>s'. scanBLE three_adverts power_on = Some s'
            \<and> 0 \<le> bleDeviceCount s' \<and> bleDeviceCount s' \<le> MAX_BLE_DEVICES
            \<and> ble_registry s' = take 25 (map ble_entry (first_unique three_adverts)))
   \<and> map_option wifiDeviceCount (scanWiFi crowded power_on) = Some 25
   \<and> map_option bleDeviceCount (scanBLE three_adverts power_on) = Some 2"
proof -
  have h: "length (wifiDevices power_on) = 25" "length (bleDevices power_on) = 25"
    by (simp_all add: power_on_def)
  have c: "map_option wifiDeviceCount (scanWiFi crowded power_on) = Some 25"
    "map_option bleDeviceCount (scanBLE three_adverts power_on) = Some 2"
    by code_simp+
  from registries_within_capacity [OF h, of crowded three_adverts] h c
  show ?thesis by blast
qed

text \<open>
  Claim C3. After a BLE scan, the addresses of the records in the BLE registry are pairwise
  different, and the registry is the first unique devices of the result set (each device
  whose address no earlier device has), in the order of the result set, up to the capacity.
\<close>

theorem scanBLE_no_duplicate_addresses:
  assumes "length (bleDevices s) = 25"
  shows "\<exists>s'. scanBLE devs s = Some s'
           \<and> distinct (map address (ble_registry s'))
           \<and> ble_registry s' = take 25 (map ble_entry (first_unique devs))"
proof -
  from scanBLE_result [OF assms, of devs]
  obtain s' where s': "scanBLE devs s = Some s'"
      "ble_registry s' = take 25 (map ble_entry (first_unique devs))"
    by (auto simp: ble_registry_def)
  have "map address (take 25 (map ble_entry (first_unique devs)))
          = take 25 (map ble_addr (first_unique devs))"
    by (simp add: take_map address_ble_entry comp_def)
  then have "distinct (map address (ble_registry s'))"
    using first_unique_distinct [of devs] s'(2) by (simp add: distinct_take)
  with s' show ?thesis by simp
qed

theorem scanBLE_no_duplicate_addresses_witness:
  "length (bleDevices power_on) = 25
   \<and> (\<exists>s'. scanBLE three_adverts power_on = Some s'
         \<and> distinct (map address (ble_registry s'))
         \<and> ble_registry s' = take 25 (map ble_entry (first_unique three_adverts)))
   \<and> first_unique three_adverts
       = [beacon ''Tag'' ''11:22:33:44:55:66'', beacon ''Watch'' ''aa:bb:cc:dd:ee:ff'']"
proof -
  have h: "length (bleDevices power_on) = 25"
    by (simp add: power_on_def)
  have fu: "first_unique three_adverts
       = [beacon ''Tag'' ''11:22:33:44:55:66'', beacon ''Watch'' ''aa:bb:cc:dd:ee:ff'']"
    by code_simp
  from scanBLE_no_duplicate_addresses [OF h, of three_adverts] h fu
  show ?thesis by blast
qed

section \<open>Width of the rendered lines\<close>

text \<open>
  Claim C2 says that every rendered line is at most 16 characters long. The firmware
  cuts line 2 of the list screens and line 1 of the detail screens with
  \<^verbatim>\<open>substring(0, 16)\<close>, but prints line 2 of the detail screens uncut. Power on, press
  Select (the WiFi scan finds three networks), press Select again and press Down: the screen
  is the WiFi detail screen on page 1, and the text written to row 1 is the 17 characters
  of the MAC address.
\<close>

theorem mac_line_exceeds_display:
  "map_option (\<lambda>s. (currentState s, detailPage s, written (io s) 1, length (written (io s) 1) \<le> LCD_COLS))
     (run [tick BTN_SELECT 1000, tick BTN_SELECT 4000, tick BTN_DOWN 7000])
   = Some (WIFI_DETAILS, 1, ''AA:BB:CC:DD:EE:FF'', False)"
  by code_simp

section \<open>Navigation\<close>

text \<open>
  Claim C1. Take any state the firmware can reach, and let the stored list index (on a list
  screen) or the stored detail page (on a detail screen) be any integer \<open>i\<close> or \<open>p\<close>,
  negative or too large. The redraw then succeeds, which in this model means that it reads
  no array element outside its array. On a list screen whose registry is not empty it
  leaves the list index within \<open>[0, count)\<close>, and the line it prints is the one of the
  registry entry at that index; on a list screen whose registry is empty it succeeds as
  well (the firmware returns before it reads an entry). On a detail screen it leaves the
  page within \<open>[0, 3)\<close> for WiFi and \<open>[0, 4)\<close> for BLE, and the display calls it makes
  are the name line of the selected entry followed by the field of exactly that page:
  the field written to row 1 is chosen by the page after the wrap correction, not by the
  stored one.
\<close>

theorem redraw_index_in_range:
  assumes "reachable s"
  shows "(currentState s = WIFI_SCAN_LIST \<longrightarrow>
           (\<exists>s'. updateDisplay (s\<lparr>listIndex := i\<rparr>) = Some s'
              \<and> (wifiDeviceCount s \<noteq> 0 \<longrightarrow>
                   0 \<le> listIndex s' \<and> listIndex s' < wifiDeviceCount s
                   \<and> last (io s') =
                       LcdPrint (substring (''-> '' @
                         (if ssid (wifiDevices s ! nat (listIndex s')) = [] then ''Hidden Network''
                          else ssid (wifiDevices s ! nat (listIndex s')))) 0 16))))
       \<and> (currentState s = BLE_SCAN_LIST \<longrightarrow>
           (\<exists>s'. updateDisplay (s\<lparr>listIndex := i\<rparr>) = Some s'
              \<and> (bleDeviceCount s \<noteq> 0 \<longrightarrow>
                   0 \<le> listIndex s' \<and> listIndex s' < bleDeviceCount s
                   \<and> last (io s') =
                       LcdPrint (substring (''-> '' @ name (bleDevices s ! nat (listIndex s'))) 0 16))))
       \<and> (currentState s = WIFI_DETAILS \<longrightarrow>
           (\<exists>s'. updateDisplay (s\<lparr>detailPage := p\<rparr>) = Some s'
              \<and> 0 \<le> detailPage s' \<and> detailPage s' < 3
              \<and> io s' = io s @ [LcdClear, LcdSetCursor 0 0,
                     LcdPrint (substring (trim
                       (if ssid (wifiDevices s ! nat (listIndex s)) = [] then ''Hidden Network''
                        else ssid (wifiDevices s ! nat (listIndex s)))) 0 16),
                     LcdSetCursor 0 1]
                   @ (if detailPage s' = 0 then
                        [LcdPrint ''RSSI: '',
                         LcdPrint (decimal (WiFiDeviceInfo.rssi (wifiDevices s ! nat (listIndex s)))),
                         LcdPrint '' dBm'']
                      else if detailPage s' = 1 then
                        [LcdPrint (mac (wifiDevices s ! nat (listIndex s)))]
                      else
                        [LcdPrint ''Ch: '',
                         LcdPrint (decimal (channel (wifiDevices s ! nat (listIndex s)))),
                         LcdPrint '' Sec: '',
                         LcdPrint (getWifiSecurityString
                                     (security (wifiDevices s ! nat (listIndex s))))])))
       \<and> (currentState s = BLE_DETAILS \<longrightarrow>
           (\<exists>s'. updateDisplay (s\<lparr>detailPage := p\<rparr>) = Some s'
              \<and> 0 \<le> detailPage s' \<and> detailPage s' < 4
              \<and> io s' = io s @ [LcdClear, LcdSetCursor 0 0,
                     LcdPrint (substring (trim (name (bleDevices s ! nat (listIndex s)))) 0 16),
                     LcdSetCursor 0 1]
                   @ (if detailPage s' = 0 then
                        [LcdPrint ''RSSI: '',
                         LcdPrint (decimal (BLEDeviceInfo.rssi (bleDevices s ! nat (listIndex s)))),
                         LcdPrint '' dBm'']
                      else if detailPage s' = 1 then
                        [LcdPrint (address (bleDevices s ! nat (listIndex s)))]
                      else if detailPage s' = 2 then
                        [LcdPrint ''TX Power: '',
                         LcdPrint (decimal (txPower (bleDevices s ! nat (listIndex s)))),
                         LcdPrint '' dB'']
                      else
                        [LcdPrint ''UUID:'',
                         LcdPrint (c_str (serviceUUID (bleDevices s ! nat (listIndex s))))])))"
proof -
  from reachable_ok [OF assms] have r: "regs_ok s" and n: "nav_ok s" by simp_all
  have wl: "\<exists>s'. updateDisplay (s\<lparr>listIndex := i\<rparr>) = Some s'
              \<and> (wifiDeviceCount s \<noteq> 0 \<longrightarrow>
                   0 \<le> listIndex s' \<and> listIndex s' < wifiDeviceCount s
                   \<and> last (io s') =
                       LcdPrint (substring (''-> '' @
                         (if ssid (wifiDevices s ! nat (listIndex s')) = [] then ''Hidden Network''
                          else ssid (wifiDevices s ! nat (listIndex s')))) 0 16))"
    if c: "currentState s = WIFI_SCAN_LIST"
  proof (cases "wifiDeviceCount s = 0")
    case True
    with c updateDisplay_wifi_list_empty [of "s\<lparr>listIndex := i\<rparr>"] show ?thesis by simp
  next
    case False
    with r have "0 < wifiDeviceCount s" "wifiDeviceCount s \<le> int (length (wifiDevices s))"
      by (simp_all add: regs_ok_def)
    with c updateDisplay_wifi_list [of "s\<lparr>listIndex := i\<rparr>", OF _ _ _ refl] show ?thesis
      by simp
  qed
  have bl: "\<exists>s'. updateDisplay (s\<lparr>listIndex := i\<rparr>) = Some s'
              \<and> (bleDeviceCount s \<noteq> 0 \<longrightarrow>
                   0 \<le> listIndex s' \<and> listIndex s' < bleDeviceCount s
                   \<and> last (io s') =
                       LcdPrint (substring (''-> '' @ name (bleDevices s ! nat (listIndex s'))) 0 16))"
    if c: "currentState s = BLE_SCAN_LIST"
  proof (cases "bleDeviceCount s = 0")
    case True
    with c updateDisplay_ble_list_empty [of "s\<lparr>listIndex := i\<rparr>"] show ?thesis by simp
  next
    case False
    with r have "0 < bleDeviceCount s" "bleDeviceCount s \<le> int (length (bleDevices s))"
      by (simp_all add: regs_ok_def)
    with c updateDisplay_ble_list [of "s\<lparr>listIndex := i\<rparr>", OF _ _ _ refl] show ?thesis
      by simp
  qed
  have wd: "\<exists>s'. updateDisplay (s\<lparr>detailPage := p\<rparr>) = Some s'
              \<and> 0 \<le> detailPage s' \<and> detailPage s' < 3
              \<and> io s' = io s @ [LcdClear, LcdSetCursor 0 0,
                     LcdPrint (substring (trim
                       (if ssid (wifiDevices s ! nat (listIndex s)) = [] then ''Hidden Network''
                        else ssid (wifiDevices s ! nat (listIndex s)))) 0 16),
                     LcdSetCursor 0 1]
                   @ (if detailPage s' = 0 then
                        [LcdPrint ''RSSI: '',
                         LcdPrint (decimal (WiFiDeviceInfo.rssi (wifiDevices s ! nat (listIndex s)))),
                         LcdPrint '' dBm'']
                      else if detailPage s' = 1 then
                        [LcdPrint (mac (wifiDevices s ! nat (listIndex s)))]
                      else
                        [LcdPrint ''Ch: '',
                         LcdPrint (decimal (channel (wifiDevices s ! nat (listIndex s)))),
                         LcdPrint '' Sec: '',
                         LcdPrint (getWifiSecurityString
                                     (security (wifiDevices s ! nat (listIndex s))))])"
    if c: "currentState s = WIFI_DETAILS"
  proof -
    from nav_ok_details(1) [OF n c] r
    have "0 \<le> listIndex s" "listIndex s < int (length (wifiDevices s))"
      by (simp_all add: regs_ok_def)
    with c updateDisplay_wifi_details [of "s\<lparr>detailPage := p\<rparr>", OF _ _ _ refl refl] show ?thesis
      by simp
  qed
  have bd: "\<exists>s'. updateDisplay (s\<lparr>detailPage := p\<rparr>) = Some s'
              \<and> 0 \<le> detailPage s' \<and> detailPage s' < 4
              \<and> io s' = io s @ [LcdClear, LcdSetCursor 0 0,
                     LcdPrint (substring (trim (name (bleDevices s ! nat (listIndex s)))) 0 16),
                     LcdSetCursor 0 1]
                   @ (if detailPage s' = 0 then
                        [LcdPrint ''RSSI: '',
                         LcdPrint (decimal (BLEDeviceInfo.rssi (bleDevices s ! nat (listIndex s)))),
                         LcdPrint '' dBm'']
                      else if detailPage s' = 1 then
                        [LcdPrint (address (bleDevices s ! nat (listIndex s)))]
                      else if detailPage s' = 2 then
                        [LcdPrint ''TX Power: '',
                         LcdPrint (decimal (txPower (bleDevices s ! nat (listIndex s)))),
                         LcdPrint '' dB'']
                      else
                        [LcdPrint ''UUID:'',
                         LcdPrint (c_str (serviceUUID (bleDevices s ! nat (listIndex s))))])"
    if c: "currentState s = BLE_DETAILS"
  proof -
    from nav_ok_details(2) [OF n c] r
    have "0 \<le> listIndex s" "listIndex s < int (length (bleDevices s))"
      by (simp_all add: regs_ok_def)
    with c updateDisplay_ble_details [of "s\<lparr>detailPage := p\<rparr>", OF _ _ _ refl refl] show ?thesis
      by simp
  qed
  from wl bl wd bd show ?thesis by blast
qed

theorem redraw_index_in_range_witness:
  "reachable at_wifi_list \<and> currentState at_wifi_list = WIFI_SCAN_LIST
   \<and> wifiDeviceCount at_wifi_list \<noteq> 0
   \<and> (\<exists>s'. updateDisplay (at_wifi_list\<lparr>listIndex := 7\<rparr>) = Some s'
         \<and> 0 \<le> listIndex s' \<and> listIndex s' < wifiDeviceCount at_wifi_list
         \<and> last (io s') =
             LcdPrint (substring (''-> '' @
               (if ssid (wifiDevices at_wifi_list ! nat (listIndex s')) = [] then ''Hidden Network''
                else ssid (wifiDevices at_wifi_list ! nat (listIndex s')))) 0 16))
   \<and> map_option listIndex (updateDisplay (at_wifi_list\<lparr>listIndex := 7\<rparr>)) = Some 0
   \<and> reachable at_ble_list \<and> currentState at_ble_list = BLE_SCAN_LIST
   \<and> bleDeviceCount at_ble_list \<noteq> 0
   \<and> (\<exists>s'. updateDisplay (at_ble_list\<lparr>listIndex := - 1\<rparr>) = Some s'
         \<and> 0 \<le> listIndex s' \<and> listIndex s' < bleDeviceCount at_ble_list
         \<and> last (io s') =
             LcdPrint (substring (''-> '' @ name (bleDevices at_ble_list ! nat (listIndex s'))) 0 16))
   \<and> map_option listIndex (updateDisplay (at_ble_list\<lparr>listIndex := - 1\<rparr>)) = Some 1
   \<and> reachable at_wifi_detail \<and> currentState at_wifi_detail = WIFI_DETAILS
   \<and> (\<exists>s'. updateDisplay (at_wifi_detail\<lparr>detailPage := - 1\<rparr>) = Some s'
              \<and> 0 \<le> detailPage s' \<and> detailPage s' < 3
              \<and> io s' = io at_wifi_detail @ [LcdClear, LcdSetCursor 0 0,
                     LcdPrint (substring (trim
                       (if ssid (wifiDevices at_wifi_detail ! nat (listIndex at_wifi_detail)) = [] then ''Hidden Network''
                        else ssid (wifiDevices at_wifi_detail ! nat (listIndex at_wifi_detail)))) 0 16),
                     LcdSetCursor 0 1]
                   @ (if detailPage s' = 0 then
                        [LcdPrint ''RSSI: '',
                         LcdPrint (decimal (WiFiDeviceInfo.rssi (wifiDevices at_wifi_detail ! nat (listIndex at_wifi_detail)))),
                         LcdPrint '' dBm'']
                      else if detailPage s' = 1 then
                        [LcdPrint (mac (wifiDevices at_wifi_detail ! nat (listIndex at_wifi_detail)))]
                      else
                        [LcdPrint ''Ch: '',
                         LcdPrint (decimal (channel (wifiDevices at_wifi_detail ! nat (listIndex at_wifi_detail)))),
                         LcdPrint '' Sec: '',
                         LcdPrint (getWifiSecurityString
                                     (security (wifiDevices at_wifi_detail ! nat (listIndex at_wifi_detail))))]))
   \<and> map_option (\<lambda>s. (detailPage s, written (io s) 1))
         (updateDisplay (at_wifi_detail\<lparr>detailPage := - 1\<rparr>)) = Some (2, ''Ch: 6 Sec: WPA2'')
   \<and> reachable at_ble_detail \<and> currentState at_ble_detail = BLE_DETAILS
   \<and> (\<exists>s'. updateDisplay (at_ble_detail\<lparr>detailPage := 4\<rparr>) = Some s'
              \<and> 0 \<le> detailPage s' \<and> detailPage s' < 4
              \<and> io s' = io at_ble_detail @ [LcdClear, LcdSetCursor 0 0,
                     LcdPrint (substring (trim (name (bleDevices at_ble_detail ! nat (listIndex at_ble_detail)))) 0 16),
                     LcdSetCursor 0 1]
                   @ (if detailPage s' = 0 then
                        [LcdPrint ''RSSI: '',
                         LcdPrint (decimal (BLEDeviceInfo.rssi (bleDevices at_ble_detail ! nat (listIndex at_ble_detail)))),
                         LcdPrint '' dBm'']
                      else if detailPage s' = 1 then
                        [LcdPrint (address (bleDevices at_ble_detail ! nat (listIndex at_ble_detail)))]
                      else if detailPage s' = 2 then
                        [LcdPrint ''TX Power: '',
                         LcdPrint (decimal (txPower (bleDevices at_ble_detail ! nat (listIndex at_ble_detail)))),
                         LcdPrint '' dB'']
                      else
                        [LcdPrint ''UUID:'',
                         LcdPrint (c_str (serviceUUID (bleDevices at_ble_detail ! nat (listIndex at_ble_detail))))]))
   \<and> map_option (\<lambda>s. (detailPage s, written (io s) 1))
         (updateDisplay (at_ble_detail\<lparr>detailPage := 4\<rparr>)) = Some (0, ''RSSI: -60 dBm'')"
proof -
  note r = reachable_examples
  have f: "currentState at_wifi_list = WIFI_SCAN_LIST" "wifiDeviceCount at_wifi_list \<noteq> 0"
    "currentState at_ble_list = BLE_SCAN_LIST" "bleDeviceCount at_ble_list \<noteq> 0"
    "currentState at_wifi_detail = WIFI_DETAILS" "currentState at_ble_detail = BLE_DETAILS"
    by code_simp+
  have v: "map_option listIndex (updateDisplay (at_wifi_list\<lparr>listIndex := 7\<rparr>)) = Some 0"
    "map_option listIndex (updateDisplay (at_ble_list\<lparr>listIndex := - 1\<rparr>)) = Some 1"
    "map_option (\<lambda>s. (detailPage s, written (io s) 1))
         (updateDisplay (at_wifi_detail\<lparr>detailPage := - 1\<rparr>)) = Some (2, ''Ch: 6 Sec: WPA2'')"
    "map_option (\<lambda>s. (detailPage s, written (io s) 1))
         (updateDisplay (at_ble_detail\<lparr>detailPage := 4\<rparr>)) = Some (0, ''RSSI: -60 dBm'')"
    by code_simp+
  from redraw_index_in_range [OF r(2), of 7 0] f(1,2)
  have a: "\<exists>s'. updateDisplay (at_wifi_list\<lparr>listIndex := 7\<rparr>) = Some s'
         \<and> 0 \<le> listIndex s' \<and> listIndex s' < wifiDeviceCount at_wifi_list
         \<and> last (io s') =
             LcdPrint (substring (''-> '' @
               (if ssid (wifiDevices at_wifi_list ! nat (listIndex s')) = [] then ''Hidden Network''
                else ssid (wifiDevices at_wifi_list ! nat (listIndex s')))) 0 16)"
    by blast
  from redraw_index_in_range [OF r(4), of "- 1" 0] f(3,4)
  have b: "\<exists>s'. updateDisplay (at_ble_list\<lparr>listIndex := - 1\<rparr>) = Some s'
         \<and> 0 \<le> listIndex s' \<and> listIndex s' < bleDeviceCount at_ble_list
         \<and> last (io s') =
             LcdPrint (substring (''-> '' @ name (bleDevices at_ble_list ! nat (listIndex s'))) 0 16)"
    by blast
  from redraw_index_in_range [OF r(3), of 0 "- 1"] f(5)
  have c: "\<exists>s'. updateDisplay (at_wifi_detail\<lparr>detailPage := - 1\<rparr>) = Some s'
              \<and> 0 \<le> detailPage s' \<and> detailPage s' < 3
              \<and> io s' = io at_wifi_detail @ [LcdClear, LcdSetCursor 0 0,
                     LcdPrint (substring (trim
                       (if ssid (wifiDevices at_wifi_detail ! nat (listIndex at_wifi_detail)) = [] then ''Hidden Network''
                        else ssid (wifiDevices at_wifi_detail ! nat (listIndex at_wifi_detail)))) 0 16),
                     LcdSetCursor 0 1]
                   @ (if detailPage s' = 0 then
                        [LcdPrint ''RSSI: '',
                         LcdPrint (decimal (WiFiDeviceInfo.rssi (wifiDevices at_wifi_detail ! nat (listIndex at_wifi_detail)))),
                         LcdPrint '' dBm'']
                      else if detailPage s' = 1 then
                        [LcdPrint (mac (wifiDevices at_wifi_detail ! nat (listIndex at_wifi_detail)))]
                      else
                        [LcdPrint ''Ch: '',
                         LcdPrint (decimal (channel (wifiDevices at_wifi_detail ! nat (listIndex at_wifi_detail)))),
                         LcdPrint '' Sec: '',
                         LcdPrint (getWifiSecurityString
                                     (security (wifiDevices at_wifi_detail ! nat (listIndex at_wifi_detail))))])"
    by blast
  from redraw_index_in_range [OF r(5), of 0 4] f(6)
  have d: "\<exists>s'. updateDisplay (at_ble_detail\<lparr>detailPage := 4\<rparr>) = Some s'
              \<and> 0 \<le> detailPage s' \<and> detailPage s' < 4
              \<and> io s' = io at_ble_detail @ [LcdClear, LcdSetCursor 0 0,
                     LcdPrint (substring (trim (name (bleDevices at_ble_detail ! nat (listIndex at_ble_detail)))) 0 16),
                     LcdSetCursor 0 1]
                   @ (if detailPage s' = 0 then
                        [LcdPrint ''RSSI: '',
                         LcdPrint (decimal (BLEDeviceInfo.rssi (bleDevices at_ble_detail ! nat (listIndex at_ble_detail)))),
                         LcdPrint '' dBm'']
                      else if detailPage s' = 1 then
                        [LcdPrint (address (bleDevices at_ble_detail ! nat (listIndex at_ble_detail)))]
                      else if detailPage s' = 2 then
                        [LcdPrint ''TX Power: '',
                         LcdPrint (decimal (txPower (bleDevices at_ble_detail ! nat (listIndex at_ble_detail)))),
                         LcdPrint '' dB'']
                      else
                        [LcdPrint ''UUID:'',
                         LcdPrint (c_str (serviceUUID (bleDevices at_ble_detail ! nat (listIndex at_ble_detail))))])"
    by blast
  from r f v a b c d show ?thesis by blast
qed

text \<open>
  Claim C5. In any reachable state on the main menu, a registered press of Select is
  handled without error, whatever the time since the last scan: the handler moves to the
  WiFi list when the index is 0 and to the BLE list when it is 1 (no other index occurs on
  the main menu), starts exactly one scan, and records the time at which the scan ended.
  The only display calls before the scan starts are those of the \<open>Scanning...\<close> notice,
  so the list screen is drawn after the scan.
\<close>

theorem select_on_main_menu_forces_scan:
  assumes "reachable s" and "currentState s = MAIN_MENU"
    and "fst (isButtonPressed p BTN_SELECT s)"
  shows "\<exists>s' evs. handleSelect p sc s = Some s'
           \<and> (listIndex s = 0 \<and> currentState s' = WIFI_SCAN_LIST
                 \<and> io s' = io s @ [LcdClear, LcdSetCursor 0 0, LcdPrint ''Scanning...'',
                                    WiFiScanNetworks] @ evs
               \<or> listIndex s = 1 \<and> currentState s' = BLE_SCAN_LIST
                 \<and> io s' = io s @ [LcdClear, LcdSetCursor 0 0, LcdPrint ''Scanning...'',
                                    BLEScanStart] @ evs)
           \<and> scans_started (io s') = scans_started (io s) + 1
           \<and> lastScanTime s' = millis_done sc"
proof -
  from reachable_ok [OF assms(1)] have r: "regs_ok s" and n: "nav_ok s" by simp_all
  from n assms(2) have "listIndex s = 0 \<or> listIndex s = 1"
    by (auto simp: nav_ok_def)
  moreover from select_on_main_menu [OF r assms(2) pressed_result [OF assms(3)], of sc]
  obtain s' evs where "handleSelect p sc s = Some s'"
      "currentState s' = (if listIndex s = 0 then WIFI_SCAN_LIST else BLE_SCAN_LIST)"
      "lastScanTime s' = millis_done sc" "scans_started (io s') = scans_started (io s) + 1"
      "io s' = io s @ [LcdClear, LcdSetCursor 0 0, LcdPrint ''Scanning...'',
                        (if listIndex s = 0 then WiFiScanNetworks else BLEScanStart)] @ evs"
    by blast
  ultimately show ?thesis by auto
qed

theorem select_on_main_menu_forces_scan_witness:
  "reachable back_at_main_menu \<and> currentState back_at_main_menu = MAIN_MENU
   \<and> fst (isButtonPressed (press BTN_SELECT 6500) BTN_SELECT back_at_main_menu)
   \<and> (\<exists>s' evs. handleSelect (press BTN_SELECT 6500) (home_scan 8500) back_at_main_menu = Some s'
         \<and> (listIndex back_at_main_menu = 0 \<and> currentState s' = WIFI_SCAN_LIST
               \<and> io s' = io back_at_main_menu
                     @ [LcdClear, LcdSetCursor 0 0, LcdPrint ''Scanning...'', WiFiScanNetworks] @ evs
             \<or> listIndex back_at_main_menu = 1 \<and> currentState s' = BLE_SCAN_LIST
               \<and> io s' = io back_at_main_menu
                     @ [LcdClear, LcdSetCursor 0 0, LcdPrint ''Scanning...'', BLEScanStart] @ evs)
         \<and> scans_started (io s') = scans_started (io back_at_main_menu) + 1
         \<and> lastScanTime s' = millis_done (home_scan 8500))
   \<and> lastScanTime back_at_main_menu = 3000
   \<and> millis_cmp (press BTN_SELECT 6500) - lastScanTime back_at_main_menu \<le> SCAN_INTERVAL"
proof -
  have f: "currentState back_at_main_menu = MAIN_MENU"
    "fst (isButtonPressed (press BTN_SELECT 6500) BTN_SELECT back_at_main_menu)"
    "lastScanTime back_at_main_menu = 3000"
    "millis_cmp (press BTN_SELECT 6500) - lastScanTime back_at_main_menu \<le> SCAN_INTERVAL"
    by code_simp+
  from select_on_main_menu_forces_scan [OF reachable_examples(7) f(1,2), of "home_scan 8500"]
    reachable_examples(7) f
  show ?thesis by blast
qed

text \<open>
  Claim C6. One pass of \<open>loop\<close> from a reachable state first handles the buttons, giving
  \<open>s1\<close>, and then starts one more scan exactly when \<open>s1\<close> is on the WiFi or the BLE list
  and the clock value read in the pass minus \<open>lastScanTime\<close> (in 32-bit unsigned
  arithmetic) exceeds 10000; on the main menu and on the detail screens the pass ends in
  \<open>s1\<close> unchanged.
\<close>

theorem periodic_rescan_iff:
  assumes "reachable s"
  shows "\<exists>s1 s'. handleButtons (buttons e) s = Some s1 \<and> loop e s = Some s'
           \<and> scans_started (io s') = scans_started (io s1) +
                (if (currentState s1 = WIFI_SCAN_LIST \<or> currentState s1 = BLE_SCAN_LIST)
                    \<and> millis_loop e - lastScanTime s1 > SCAN_INTERVAL then 1 else 0)
           \<and> (currentState s1 = MAIN_MENU \<or> currentState s1 = WIFI_DETAILS
                \<or> currentState s1 = BLE_DETAILS \<longrightarrow> s' = s1)"
proof -
  from reachable_ok [OF assms] have "regs_ok s" "nav_ok s" by simp_all
  from handleButtons_ok [OF this, of "buttons e"] obtain s1
    where s1: "handleButtons (buttons e) s = Some s1" "regs_ok s1" by blast
  let ?due = "(currentState s1 = WIFI_SCAN_LIST \<or> currentState s1 = BLE_SCAN_LIST)
                    \<and> millis_loop e - lastScanTime s1 > SCAN_INTERVAL"
  show ?thesis
  proof (cases ?due)
    case True
    then have l: "currentState s1 = WIFI_SCAN_LIST \<or> currentState s1 = BLE_SCAN_LIST" by simp
    from refreshScan_ok [OF s1(2) l, of "auto_scan e"] obtain s'
      where "refreshScan (auto_scan e) s1 = Some s'"
        "scans_started (io s') = scans_started (io s1) + 1" by blast
    with True s1(1) have "loop e s = Some s'
        \<and> scans_started (io s') = scans_started (io s1) + (if ?due then 1 else 0)
        \<and> (currentState s1 = MAIN_MENU \<or> currentState s1 = WIFI_DETAILS
                \<or> currentState s1 = BLE_DETAILS \<longrightarrow> s' = s1)"
      by (auto simp: loop_def autoRefresh_def)
    with s1(1) show ?thesis by blast
  next
    case False
    with s1(1) have "loop e s = Some s1
        \<and> scans_started (io s1) = scans_started (io s1) + (if ?due then 1 else 0)
        \<and> (currentState s1 = MAIN_MENU \<or> currentState s1 = WIFI_DETAILS
                \<or> currentState s1 = BLE_DETAILS \<longrightarrow> s1 = s1)"
      by (auto simp: loop_def autoRefresh_def)
    with s1(1) show ?thesis by blast
  qed
qed

theorem periodic_rescan_iff_witness:
  "reachable at_wifi_list
   \<and> (\<exists>s1 s'. handleButtons (buttons (tick BTN_UP 20000)) at_wifi_list = Some s1
         \<and> loop (tick BTN_UP 20000) at_wifi_list = Some s'
         \<and> scans_started (io s') = scans_started (io s1) +
              (if (currentState s1 = WIFI_SCAN_LIST \<or> currentState s1 = BLE_SCAN_LIST)
                  \<and> millis_loop (tick BTN_UP 20000) - lastScanTime s1 > SCAN_INTERVAL then 1 else 0)
         \<and> (currentState s1 = MAIN_MENU \<or> currentState s1 = WIFI_DETAILS
              \<or> currentState s1 = BLE_DETAILS \<longrightarrow> s' = s1))
   \<and> map_option (\<lambda>s. (currentState s, millis_loop (tick BTN_UP 20000) - lastScanTime s, scans_started (io s)))
         (handleButtons (buttons (tick BTN_UP 20000)) at_wifi_list) = Some (WIFI_SCAN_LIST, 19000, 1)
   \<and> map_option (\<lambda>s. scans_started (io s)) (loop (tick BTN_UP 20000) at_wifi_list) = Some 2
   \<and> map_option (\<lambda>s. (currentState s, millis_loop (tick BTN_UP 7000) - lastScanTime s, scans_started (io s)))
         (handleButtons (buttons (tick BTN_UP 7000)) at_wifi_list) = Some (WIFI_SCAN_LIST, 6000, 1)
   \<and> map_option (\<lambda>s. scans_started (io s)) (loop (tick BTN_UP 7000) at_wifi_list) = Some 1
   \<and> map_option (\<lambda>s. (currentState s, millis_loop (tick BTN_UP 30000) - lastScanTime s, scans_started (io s)))
         (handleButtons (buttons (tick BTN_UP 30000)) at_wifi_detail) = Some (WIFI_DETAILS, 29000, 1)
   \<and> map_option (\<lambda>s. scans_started (io s)) (loop (tick BTN_UP 30000) at_wifi_detail) = Some 1"
proof -
  have v: "map_option (\<lambda>s. (currentState s, millis_loop (tick BTN_UP 20000) - lastScanTime s, scans_started (io s)))
         (handleButtons (buttons (tick BTN_UP 20000)) at_wifi_list) = Some (WIFI_SCAN_LIST, 19000, 1)"
    "map_option (\<lambda>s. scans_started (io s)) (loop (tick BTN_UP 20000) at_wifi_list) = Some 2"
    "map_option (\<lambda>s. (currentState s, millis_loop (tick BTN_UP 7000) - lastScanTime s, scans_started (io s)))
         (handleButtons (buttons (tick BTN_UP 7000)) at_wifi_list) = Some (WIFI_SCAN_LIST, 6000, 1)"
    "map_option (\<lambda>s. scans_started (io s)) (loop (tick BTN_UP 7000) at_wifi_list) = Some 1"
    "map_option (\<lambda>s. (currentState s, millis_loop (tick BTN_UP 30000) - lastScanTime s, scans_started (io s)))
         (handleButtons (buttons (tick BTN_UP 30000)) at_wifi_detail) = Some (WIFI_DETAILS, 29000, 1)"
    "map_option (\<lambda>s. scans_started (io s)) (loop (tick BTN_UP 30000) at_wifi_detail) = Some 1"
    by code_simp+
  from periodic_rescan_iff [OF reachable_examples(2), of "tick BTN_UP 20000"] reachable_examples(2) v
  show ?thesis by blast
qed

text \<open>
  Claim C9. In every reachable state on a detail screen the stored list index lies within
  \<open>[0, count)\<close> of the registry of that screen, the count is at most the size of the
  array, and drawing the detail screen succeeds, that is, reads inside the array. Moreover
  a pass of the main loop from any reachable state succeeds, for all readings of the
  hardware: no array access made in it is out of bounds.
\<close>

theorem detail_index_in_bounds:
  assumes "reachable s"
  shows "(currentState s = WIFI_DETAILS \<longrightarrow>
            0 \<le> listIndex s \<and> listIndex s < wifiDeviceCount s
            \<and> wifiDeviceCount s \<le> int (length (wifiDevices s))
            \<and> (\<exists>s'. drawWifiDetails s = Some s'))
       \<and> (currentState s = BLE_DETAILS \<longrightarrow>
            0 \<le> listIndex s \<and> listIndex s < bleDeviceCount s
            \<and> bleDeviceCount s \<le> int (length (bleDevices s))
            \<and> (\<exists>s'. drawBleDetails s = Some s'))
       \<and> (\<exists>s'. loop e s = Some s' \<and> reachable s')"
proof -
  from reachable_ok [OF assms] have r: "regs_ok s" and n: "nav_ok s" by simp_all
  have w: "0 \<le> listIndex s \<and> listIndex s < wifiDeviceCount s
            \<and> wifiDeviceCount s \<le> int (length (wifiDevices s))
            \<and> (\<exists>s'. drawWifiDetails s = Some s')" if c: "currentState s = WIFI_DETAILS"
  proof -
    from nav_ok_details(1) [OF n c] r
    have i: "0 \<le> listIndex s" "listIndex s < wifiDeviceCount s"
      "wifiDeviceCount s \<le> int (length (wifiDevices s))"
      by (simp_all add: regs_ok_def)
    then have "arr_get (wifiDevices s) (listIndex s) = Some (wifiDevices s ! nat (listIndex s))"
      by (simp add: arr_get_def)
    then have "\<exists>s'. drawWifiDetails s = Some s'"
      by (simp add: drawWifiDetails_def Let_def)
    with i show ?thesis by simp
  qed
  have b: "0 \<le> listIndex s \<and> listIndex s < bleDeviceCount s
            \<and> bleDeviceCount s \<le> int (length (bleDevices s))
            \<and> (\<exists>s'. drawBleDetails s = Some s')" if c: "currentState s = BLE_DETAILS"
  proof -
    from nav_ok_details(2) [OF n c] r
    have i: "0 \<le> listIndex s" "listIndex s < bleDeviceCount s"
      "bleDeviceCount s \<le> int (length (bleDevices s))"
      by (simp_all add: regs_ok_def)
    then have "arr_get (bleDevices s) (listIndex s) = Some (bleDevices s ! nat (listIndex s))"
      by (simp add: arr_get_def)
    then have "\<exists>s'. drawBleDetails s = Some s'"
      by (simp add: drawBleDetails_def Let_def)
    with i show ?thesis by simp
  qed
  from loop_ok [OF r n, of e] obtain s' where l: "loop e s = Some s'" by blast
  from assms l have "reachable s'" by (rule loop_reachable)
  with l w b show ?thesis by blast
qed

theorem detail_index_in_bounds_witness:
  "reachable at_wifi_detail \<and> currentState at_wifi_detail = WIFI_DETAILS
   \<and> 0 \<le> listIndex at_wifi_detail \<and> listIndex at_wifi_detail < wifiDeviceCount at_wifi_detail
   \<and> wifiDeviceCount at_wifi_detail \<le> int (length (wifiDevices at_wifi_detail))
   \<and> (\<exists>s'. drawWifiDetails at_wifi_detail = Some s')
   \<and> (\<exists>s'. loop (tick BTN_DOWN 10000) at_wifi_detail = Some s' \<and> reachable s')
   \<and> listIndex at_wifi_detail = 1 \<and> wifiDeviceCount at_wifi_detail = 3
   \<and> reachable at_ble_detail \<and> currentState at_ble_detail = BLE_DETAILS
   \<and> 0 \<le> listIndex at_ble_detail \<and> listIndex at_ble_detail < bleDeviceCount at_ble_detail
   \<and> bleDeviceCount at_ble_detail \<le> int (length (bleDevices at_ble_detail))
   \<and> (\<exists>s'. drawBleDetails at_ble_detail = Some s')
   \<and> listIndex at_ble_detail = 0 \<and> bleDeviceCount at_ble_detail = 2"
proof -
  have f: "currentState at_wifi_detail = WIFI_DETAILS" "currentState at_ble_detail = BLE_DETAILS"
    "listIndex at_wifi_detail = 1" "wifiDeviceCount at_wifi_detail = 3"
    "listIndex at_ble_detail = 0" "bleDeviceCount at_ble_detail = 2"
    by code_simp+
  from detail_index_in_bounds [OF reachable_examples(3), of "tick BTN_DOWN 10000"]
    detail_index_in_bounds [OF reachable_examples(5), of "tick BTN_DOWN 10000"]
    reachable_examples(3,5) f
  show ?thesis by blast
qed

text \<open>
  Claim C10. Where the registries are well-formed (as in every reachable state), a
  registered press of Back is handled without error and leaves the list index at 0, on
  the list screen of the detail screen it came from or else on the main menu; the
  forced scan of a registered Select on the main menu and a periodic rescan that is due
  each run one scan and leave the list index at 0.
\<close>

theorem back_and_scans_reset_index:
  assumes "regs_ok s"
  shows "(fst (isButtonPressed p BTN_BACK s) \<longrightarrow>
           (\<exists>s'. handleBack p s = Some s' \<and> listIndex s' = 0
              \<and> currentState s' =
                  (if currentState s = WIFI_DETAILS then WIFI_SCAN_LIST
                   else if currentState s = BLE_DETAILS then BLE_SCAN_LIST else MAIN_MENU)))
       \<and> (fst (isButtonPressed p BTN_SELECT s) \<and> currentState s = MAIN_MENU \<longrightarrow>
           (\<exists>s'. handleSelect p sc s = Some s'
              \<and> scans_started (io s') = scans_started (io s) + 1 \<and> listIndex s' = 0))
       \<and> ((currentState s = WIFI_SCAN_LIST \<or> currentState s = BLE_SCAN_LIST)
            \<and> now - lastScanTime s > SCAN_INTERVAL \<longrightarrow>
           (\<exists>s'. autoRefresh now sc s = Some s'
              \<and> scans_started (io s') = scans_started (io s) + 1 \<and> listIndex s' = 0))"
proof (intro conjI impI)
  assume "fst (isButtonPressed p BTN_BACK s)"
  with handleBack_ok [OF assms, of p]
  show "\<exists>s'. handleBack p s = Some s' \<and> listIndex s' = 0
              \<and> currentState s' =
                  (if currentState s = WIFI_DETAILS then WIFI_SCAN_LIST
                   else if currentState s = BLE_DETAILS then BLE_SCAN_LIST else MAIN_MENU)"
    by blast
next
  assume a: "fst (isButtonPressed p BTN_SELECT s) \<and> currentState s = MAIN_MENU"
  from select_on_main_menu [OF assms _ pressed_result, of p sc] a
  show "\<exists>s'. handleSelect p sc s = Some s'
              \<and> scans_started (io s') = scans_started (io s) + 1 \<and> listIndex s' = 0"
    by blast
next
  assume a: "(currentState s = WIFI_SCAN_LIST \<or> currentState s = BLE_SCAN_LIST)
            \<and> now - lastScanTime s > SCAN_INTERVAL"
  then have l: "currentState s = WIFI_SCAN_LIST \<or> currentState s = BLE_SCAN_LIST" by simp
  from refreshScan_ok [OF assms l, of sc] obtain s' where
    "refreshScan sc s = Some s'" "scans_started (io s') = scans_started (io s) + 1" "listIndex s' = 0"
    by blast
  with a show "\<exists>s'. autoRefresh now sc s = Some s'
              \<and> scans_started (io s') = scans_started (io s) + 1 \<and> listIndex s' = 0"
    by (simp add: autoRefresh_def)
qed

theorem back_and_scans_reset_index_witness:
  "regs_ok at_wifi_detail \<and> listIndex at_wifi_detail = 1
   \<and> fst (isButtonPressed (press BTN_BACK 10000) BTN_BACK at_wifi_detail)
   \<and> (\<exists>s'. handleBack (press BTN_BACK 10000) at_wifi_detail = Some s' \<and> listIndex s' = 0
         \<and> currentState s' = WIFI_SCAN_LIST)
   \<and> regs_ok at_second_entry \<and> listIndex at_second_entry = 1
   \<and> fst (isButtonPressed (press BTN_SELECT 4000) BTN_SELECT at_second_entry)
   \<and> currentState at_second_entry = MAIN_MENU
   \<and> (\<exists>s'. handleSelect (press BTN_SELECT 4000) (home_scan 6000) at_second_entry = Some s'
         \<and> scans_started (io s') = scans_started (io at_second_entry) + 1 \<and> listIndex s' = 0)
   \<and> regs_ok at_wifi_list \<and> listIndex at_wifi_list = 1
   \<and> currentState at_wifi_list = WIFI_SCAN_LIST
   \<and> 20000 - lastScanTime at_wifi_list > SCAN_INTERVAL
   \<and> (\<exists>s'. autoRefresh 20000 (home_scan 22000) at_wifi_list = Some s'
         \<and> scans_started (io s') = scans_started (io at_wifi_list) + 1 \<and> listIndex s' = 0)"
proof -
  have r: "regs_ok at_wifi_detail" "regs_ok at_second_entry" "regs_ok at_wifi_list"
    using reachable_examples reachable_ok by blast+
  have f: "listIndex at_wifi_detail = 1"
    "fst (isButtonPressed (press BTN_BACK 10000) BTN_BACK at_wifi_detail)"
    "currentState at_wifi_detail = WIFI_DETAILS"
    "listIndex at_second_entry = 1"
    "fst (isButtonPressed (press BTN_SELECT 4000) BTN_SELECT at_second_entry)"
    "currentState at_second_entry = MAIN_MENU"
    "listIndex at_wifi_list = 1" "currentState at_wifi_list = WIFI_SCAN_LIST"
    "20000 - lastScanTime at_wifi_list > SCAN_INTERVAL"
    by code_simp+
  from back_and_scans_reset_index [OF r(1), of "press BTN_BACK 10000"] f(2,3)
  have a: "\<exists>s'. handleBack (press BTN_BACK 10000) at_wifi_detail = Some s' \<and> listIndex s' = 0
         \<and> currentState s' = WIFI_SCAN_LIST"
    by simp
  from back_and_scans_reset_index [OF r(2), of "press BTN_SELECT 4000" "home_scan 6000"] f(5,6)
  have b: "\<exists>s'. handleSelect (press BTN_SELECT 4000) (home_scan 6000) at_second_entry = Some s'
         \<and> scans_started (io s') = scans_started (io at_second_entry) + 1 \<and> listIndex s' = 0"
    by blast
  from back_and_scans_reset_index [OF r(3), of _ "home_scan 22000" 20000] f(8,9)
  have c: "\<exists>s'. autoRefresh 20000 (home_scan 22000) at_wifi_list = Some s'
         \<and> scans_started (io s') = scans_started (io at_wifi_list) + 1 \<and> listIndex s' = 0"
    by blast
  from r f a b c show ?thesis by blast
qed

end
